theory Spec2Isabelle
  imports Main
begin

section \<open>The path matcher: the regular expression of \<^verbatim>\<open>src/index.ts\<close>, line 24\<close>

text \<open>
  The worker matches the request's pathname against the literal
  \<^verbatim>\<open>/^\/([^\/]+)(?:\/latest(\/.*)?|\/?)?$/\<close>
  with \<^verbatim>\<open>String.prototype.match\<close>. The literal is embedded as a term of a small
  regular-expression syntax, and \<^verbatim>\<open>match\<close> as a backtracking matcher over it:
  every construct returns the list of states in which it can leave the input, in the
  order in which a backtracking engine tries them (greedy quantifiers: longest first;
  alternation: left first). The first state of the list is the engine's answer. An
  iteration of \<^verbatim>\<open>*\<close> that consumes nothing is rejected, as ECMAScript rejects it.

  A pathname produced by the URL parser is ASCII, so a character is a \<^typ>\<open>char\<close>.
\<close>

datatype regex =
    Chr char                \<comment> \<open>a literal character, \<^verbatim>\<open>\/\<close> or a letter\<close>
  | NotChr char             \<comment> \<open>the negated class \<^verbatim>\<open>[^c]\<close>\<close>
  | Dot                     \<comment> \<open>\<^verbatim>\<open>.\<close>, any character but a line terminator\<close>
  | Bol                     \<comment> \<open>\<^verbatim>\<open>^\<close> (no \<^verbatim>\<open>m\<close> flag: start of input)\<close>
  | Eol                     \<comment> \<open>\<^verbatim>\<open>$\<close> (no \<^verbatim>\<open>m\<close> flag: end of input)\<close>
  | Seq regex regex         \<comment> \<open>concatenation\<close>
  | Alt regex regex         \<comment> \<open>\<^verbatim>\<open>a|b\<close>\<close>
  | Opt regex               \<comment> \<open>\<^verbatim>\<open>a?\<close>, greedy\<close>
  | Star regex              \<comment> \<open>\<^verbatim>\<open>a*\<close>, greedy\<close>
  | Grp nat regex           \<comment> \<open>the capturing group number \<open>n\<close>\<close>
  | Eps                     \<comment> \<open>the empty pattern\<close>

text \<open>\<^verbatim>\<open>a+\<close> is one \<open>a\<close> and then \<^verbatim>\<open>a*\<close>.\<close>

definition Plus :: "regex \<Rightarrow> regex" where
  "Plus a = Seq a (Star a)"

text \<open>A run of literal characters, such as \<^verbatim>\<open>\/latest\<close>.\<close>

fun Lit :: "string \<Rightarrow> regex" where
  "Lit [] = Eps"
| "Lit (c # cs) = Seq (Chr c) (Lit cs)"

text \<open>
  The line terminators of ECMAScript that an ASCII string can hold: line feed and
  carriage return.
\<close>

definition line_terminator :: "char \<Rightarrow> bool" where
  "line_terminator c = (c = CHR 0x0A \<or> c = CHR 0x0D)"

text \<open>
  A matcher state: the index reached in the input, the input that is left, and the
  captures made so far (a group that has not taken part is undefined, \<open>None\<close>).
\<close>

type_synonym captures = "nat \<rightharpoonup> string"

type_synonym mstate = "nat \<times> string \<times> captures"

function run :: "regex \<Rightarrow> mstate \<Rightarrow> mstate list" where
  "run (Chr c) (i, s, k) =
     (case s of [] \<Rightarrow> [] | x # xs \<Rightarrow> if x = c then [(Suc i, xs, k)] else [])"
| "run (NotChr c) (i, s, k) =
     (case s of [] \<Rightarrow> [] | x # xs \<Rightarrow> if x \<noteq> c then [(Suc i, xs, k)] else [])"
| "run Dot (i, s, k) =
     (case s of [] \<Rightarrow> [] | x # xs \<Rightarrow> if \<not> line_terminator x then [(Suc i, xs, k)] else [])"
| "run Bol (i, s, k) = (if i = 0 then [(i, s, k)] else [])"
| "run Eol (i, s, k) = (if s = [] then [(i, s, k)] else [])"
| "run (Seq a b) (i, s, k) = concat (map (run b) (run a (i, s, k)))"
| "run (Alt a b) (i, s, k) = run a (i, s, k) @ run b (i, s, k)"
| "run (Opt a) (i, s, k) = run a (i, s, k) @ [(i, s, k)]"
| "run (Star a) (i, s, k) =
     concat (map (\<lambda>(j, t, k'). if length t < length s then run (Star a) (j, t, k') else [])
                 (run a (i, s, k)))
     @ [(i, s, k)]"
| "run (Grp n a) (i, s, k) =
     map (\<lambda>(j, t, k'). (j, t, k'(n \<mapsto> take (j - i) s))) (run a (i, s, k))"
| "run Eps (i, s, k) = [(i, s, k)]"
  by pat_completeness auto
termination
  by (relation "measures [\<lambda>(r, st). size r, \<lambda>(r, i, s, k). length s]") auto

text \<open>
  \<^verbatim>\<open>String.prototype.match\<close> with a regular expression that has no \<^verbatim>\<open>g\<close> flag: the
  matcher is tried at index 0, then at 1, and so on to the end of the input; the first
  index at which it succeeds gives the result, and \<open>None\<close> is JavaScript's \<^verbatim>\<open>null\<close>.
\<close>

fun regexp_exec :: "regex \<Rightarrow> nat \<Rightarrow> string \<Rightarrow> captures option" where
  "regexp_exec r i [] =
     (case run r (i, [], Map.empty) of (j, t, k) # _ \<Rightarrow> Some k | [] \<Rightarrow> None)"
| "regexp_exec r i (c # s) =
     (case run r (i, c # s, Map.empty) of
        (j, t, k) # _ \<Rightarrow> Some k
      | [] \<Rightarrow> regexp_exec r (Suc i) s)"

definition js_match :: "string \<Rightarrow> regex \<Rightarrow> captures option" where
  "js_match s r = regexp_exec r 0 s"

text \<open>The literal of the source.\<close>

definition path_regex :: regex where
  "path_regex =
     Seq Bol (Seq (Chr CHR ''/'') (Seq (Grp 1 (Plus (NotChr CHR ''/'')))
       (Seq (Opt (Alt (Seq (Lit ''/latest'') (Opt (Grp 2 (Seq (Chr CHR ''/'') (Star Dot)))))
                      (Opt (Chr CHR ''/''))))
            Eol)))"

section \<open>The platform: values, URLs, the key-value store, outbound requests\<close>

text \<open>A thrown JavaScript value, with its message.\<close>

datatype exn = Exn string

text \<open>
  The values the variable \<^verbatim>\<open>version\<close> can hold. \<^verbatim>\<open>KV.get\<close> returns a string or
  \<^verbatim>\<open>null\<close>; the \<^verbatim>\<open>version\<close> property of the registry's answer is a string when it is
  there and \<^verbatim>\<open>undefined\<close> when it is not (the registry's schema has no other type for
  it, and none is modelled).
\<close>

datatype js_value = JUndefined | JNull | JString string

text \<open>The truthiness that \<^verbatim>\<open>if (v)\<close> and \<^verbatim>\<open>!v\<close> test.\<close>

fun truthy :: "js_value \<Rightarrow> bool" where
  "truthy JUndefined = False"
| "truthy JNull = False"
| "truthy (JString s) = (s \<noteq> [])"

text \<open>The string that a template literal \<^verbatim>\<open>${v}\<close> interpolates.\<close>

fun template :: "js_value \<Rightarrow> string" where
  "template JUndefined = ''undefined''"
| "template JNull = ''null''"
| "template (JString s) = s"

text \<open>
  A parsed URL, by the components the worker reads and writes, and its serialisation
  (\<^verbatim>\<open>toString\<close>). \<^verbatim>\<open>search\<close> is empty or begins with \<^verbatim>\<open>?\<close>, \<^verbatim>\<open>hash\<close> is empty or begins
  with \<^verbatim>\<open>#\<close>.
\<close>

record URL =
  origin :: string
  pathname :: string
  search :: string
  hash :: string

definition toString :: "URL \<Rightarrow> string" where
  "toString u = origin u @ pathname u @ search u @ hash u"

text \<open>The incoming request: \<^verbatim>\<open>url\<close> is \<^verbatim>\<open>new URL(request.url)\<close>.\<close>

record request =
  url :: URL

text \<open>
  The URL constructor \<^verbatim>\<open>new URL(path, base)\<close> rewrites its input: it percent-encodes
  some characters, removes dot segments, and cuts the path at \<^verbatim>\<open>?\<close> and \<^verbatim>\<open>#\<close>. It
  leaves a path alone that begins with one \<^verbatim>\<open>/\<close>, whose characters are printable ASCII
  outside the path percent-encode set and other than \<^verbatim>\<open>?\<close>, \<^verbatim>\<open>#\<close> and the backslash,
  and that has no dot segment. On such a path the constructor is modelled; on any other
  path its result is the platform's, a parameter of the world below.
\<close>

definition url_code_point_verbatim :: "char \<Rightarrow> bool" where
  "url_code_point_verbatim c =
     (0x21 \<le> (of_char c :: nat) \<and> (of_char c :: nat) \<le> 0x7E \<and>
      c \<notin> {CHR 0x22, CHR 0x23, CHR 0x3C, CHR 0x3E, CHR 0x3F, CHR 0x5C, CHR 0x5E,
             CHR 0x60, CHR 0x7B, CHR 0x7D})"

primrec segments :: "string \<Rightarrow> string list" where
  "segments [] = [[]]"
| "segments (c # cs) =
     (if c = CHR ''/'' then [] # segments cs
      else (case segments cs of [] \<Rightarrow> [[c]] | x # xs \<Rightarrow> (c # x) # xs))"

definition dot_segment :: "string \<Rightarrow> bool" where
  "dot_segment x =
     (x \<in> {''.'', ''%2e'', ''%2E'',
            ''..'', ''.%2e'', ''.%2E'', ''%2e.'', ''%2E.'',
            ''%2e%2e'', ''%2e%2E'', ''%2E%2e'', ''%2E%2E''})"

definition url_path_verbatim :: "string \<Rightarrow> bool" where
  "url_path_verbatim p =
     (case p of
        [] \<Rightarrow> False
      | c # cs \<Rightarrow> c = CHR ''/'' \<and> take 1 cs \<noteq> ''/'' \<and>
                 list_all url_code_point_verbatim cs \<and>
                 \<not> list_ex dot_segment (segments cs))"

text \<open>A value stored in the key-value store, with the time-to-live it was written with.\<close>

record kv_entry =
  val :: string
  expirationTtl :: "nat option"

text \<open>
  What \<^verbatim>\<open>fetch(url)\<close> resolves to, by the members the worker reads: \<^verbatim>\<open>ok\<close>,
  \<^verbatim>\<open>status\<close>, and \<^verbatim>\<open>json()\<close>, which throws on a body that does not parse. The parsed body
  is \<^verbatim>\<open>null\<close>, an object with its properties, or another value (a number, a string, a
  boolean, an array).
\<close>

datatype json_data = JsonNull | JsonObject "string \<rightharpoonup> js_value" | JsonOther

record fetch_response =
  ok :: bool
  status :: nat
  json :: "exn + json_data"

text \<open>\<^verbatim>\<open>data.version\<close>: reading a property of \<^verbatim>\<open>null\<close> throws a TypeError.\<close>

fun get_version :: "json_data \<Rightarrow> exn + js_value" where
  "get_version JsonNull = Inl (Exn ''TypeError: Cannot read properties of null'')"
| "get_version (JsonObject m) =
     Inr (case m ''version'' of None \<Rightarrow> JUndefined | Some v \<Rightarrow> v)"
| "get_version JsonOther = Inr JUndefined"

text \<open>
  What the worker does to the outside, in the order in which it does it. A warning is
  logged with its message and the further arguments of \<^verbatim>\<open>console.warn\<close>: the status
  of the registry's answer, or the exception caught.
\<close>

datatype log_arg = Status nat | Thrown exn

datatype event =
    KV_get_called string
  | KV_put_called string js_value "nat option"
  | Fetch_url string
  | Fetch_request request
  | Console_info string
  | Console_warn string "log_arg list"

text \<open>
  The world a request is handled in: the content of the store behind \<^verbatim>\<open>env.KV\<close> and
  the events so far, which the worker changes, and the behaviour of the platform, which
  it does not: whether a read or a write of the store throws, what an outbound request
  to a URL gives (a rejection or a response), and what the URL constructor gives on a
  path it rewrites.
\<close>

record world =
  KV :: "string \<rightharpoonup> kv_entry"
  events :: "event list"
  KV_get_throws :: "string \<Rightarrow> exn option"
  KV_put_throws :: "string \<Rightarrow> exn option"
  network :: "string \<Rightarrow> exn + fetch_response"
  URL_rewrite :: "string \<Rightarrow> string \<Rightarrow> exn + URL"

definition emit :: "event \<Rightarrow> world \<Rightarrow> world" where
  "emit e w = w\<lparr>events := events w @ [e]\<rparr>"

text \<open>
  \<^verbatim>\<open>env.KV.get(key)\<close>: the stored string, or \<^verbatim>\<open>null\<close> when the key has no entry;
  \<open>cached\<close> is the value a read that does not throw returns.
\<close>

definition cached :: "world \<Rightarrow> string \<Rightarrow> js_value" where
  "cached w key = (case KV w key of None \<Rightarrow> JNull | Some en \<Rightarrow> JString (val en))"

definition KV_get :: "string \<Rightarrow> world \<Rightarrow> (exn + js_value) \<times> world" where
  "KV_get key w =
     (let w' = emit (KV_get_called key) w in
      case KV_get_throws w key of
        Some e \<Rightarrow> (Inl e, w')
      | None \<Rightarrow> (Inr (cached w key), w'))"

text \<open>
  \<^verbatim>\<open>env.KV.put(key, value, {expirationTtl})\<close>. The store takes a string; a write that
  throws is modelled as leaving the store as it was.
\<close>

definition KV_put :: "string \<Rightarrow> js_value \<Rightarrow> nat option \<Rightarrow> world \<Rightarrow> (exn + unit) \<times> world" where
  "KV_put key v ttl w =
     (let w' = emit (KV_put_called key v ttl) w in
      case KV_put_throws w key of
        Some e \<Rightarrow> (Inl e, w')
      | None \<Rightarrow>
          (case v of
             JString s \<Rightarrow> (Inr (), w'\<lparr>KV := (KV w')(key \<mapsto> \<lparr>val = s, expirationTtl = ttl\<rparr>)\<rparr>)
           | _ \<Rightarrow> (Inl (Exn ''TypeError: KV put() accepts only strings''), w')))"

text \<open>\<^verbatim>\<open>fetch(url)\<close> with a URL string.\<close>

definition fetch_url :: "string \<Rightarrow> world \<Rightarrow> (exn + fetch_response) \<times> world" where
  "fetch_url u w = (network w u, emit (Fetch_url u) w)"

text \<open>\<^verbatim>\<open>new URL(path, base)\<close> for a base that is an origin.\<close>

definition new_URL :: "string \<Rightarrow> string \<Rightarrow> world \<Rightarrow> exn + URL" where
  "new_URL path base w =
     (if url_path_verbatim path
      then Inr \<lparr>origin = base, pathname = path, search = [], hash = []\<rparr>
      else URL_rewrite w path base)"

text \<open>
  What the handler returns: \<^verbatim>\<open>Response.redirect(location, status)\<close>, with the arguments
  the source passes, or the promise of \<^verbatim>\<open>fetch(request)\<close>, the origin's own answer to
  the request.
\<close>

datatype response = Redirect string nat | Forwarded request

section \<open>The handler of \<^verbatim>\<open>src/index.ts\<close>\<close>

text \<open>Line 37: the registry URL for a package.\<close>

definition registry_url :: "string \<Rightarrow> string" where
  "registry_url packageName = ''https://registry.npmjs.org/@electron/'' @ packageName @ ''/latest''"

text \<open>
  Lines 33 to 59, the branch \<^verbatim>\<open>if (!version)\<close>: the registry is asked, and the value of
  \<^verbatim>\<open>version\<close> after the branch is returned, or the exception that left it.
\<close>

definition query_registry :: "string \<Rightarrow> js_value \<Rightarrow> world \<Rightarrow> (exn + js_value) \<times> world" where
  "query_registry packageName version w =
     (let w1 = emit (Console_info (''No version found for '' @ packageName @
                                  '' in KV. Querying npm registry...'')) w;
          (r, w2) = fetch_url (registry_url packageName) w1
      in case r of
           Inl e \<Rightarrow> (Inl e, w2)
         | Inr req \<Rightarrow>
             if ok req then
               (case json req of
                  Inl e \<Rightarrow> (Inl e, w2)
                | Inr data \<Rightarrow>
                    (case get_version data of
                       Inl e \<Rightarrow> (Inl e, w2)
                     | Inr npmVersion \<Rightarrow>
                         if truthy npmVersion then
                           (case KV_put packageName npmVersion (Some 600) w2 of
                              (Inl e, w3) \<Rightarrow> (Inl e, w3)
                            | (Inr _, w3) \<Rightarrow> (Inr npmVersion, w3))
                         else
                           (Inr version,
                            emit (Console_warn (''No version found for '' @ packageName @
                                                '' in npm registry response.'') []) w2)))
             else
               (Inr version,
                emit (Console_warn ''failed to look up package from npm registry'' [Status (status req)]) w2))"

text \<open>Lines 64 to 72: the redirect is built from whatever \<^verbatim>\<open>version\<close> holds.\<close>

definition base_origin :: string where
  "base_origin = ''https://packages.electronjs.org''"

definition redirectPath :: "string \<Rightarrow> js_value \<Rightarrow> string" where
  "redirectPath packageName version =
     ''/'' @ packageName @ ''/v'' @ template version @ ''/index.html''"

definition build_redirect :: "request \<Rightarrow> string \<Rightarrow> js_value \<Rightarrow> world \<Rightarrow> exn + response" where
  "build_redirect request packageName version w =
     (case new_URL (redirectPath packageName version) base_origin w of
        Inl e \<Rightarrow> Inl e
      | Inr redirectUrl \<Rightarrow>
          Inr (Redirect (toString (redirectUrl\<lparr>search := search (url request)\<rparr>)) 302))"

text \<open>Lines 30 to 72, the body of the \<^verbatim>\<open>try\<close>.\<close>

definition try_body :: "request \<Rightarrow> string \<Rightarrow> world \<Rightarrow> (exn + response) \<times> world" where
  "try_body request packageName w =
     (case KV_get packageName w of
        (Inl e, w1) \<Rightarrow> (Inl e, w1)
      | (Inr version0, w1) \<Rightarrow>
          (case (if \<not> truthy version0 then query_registry packageName version0 w1
                 else (Inr version0,
                       emit (Console_info (''Found version '' @ template version0 @ '' for '' @
                                           packageName @ '' in KV'')) w1)) of
             (Inl e, w2) \<Rightarrow> (Inl e, w2)
           | (Inr version, w2) \<Rightarrow> (build_redirect request packageName version w2, w2)))"

text \<open>
  Line 24 and line 27: the match and its first group. A match always defines group 1
  (lemma \<open>js_match_group1\<close> below); \<^verbatim>\<open>undefined\<close> is there for totality.
\<close>

definition path_match :: "string \<Rightarrow> js_value option" where
  "path_match p =
     (case js_match p path_regex of
        None \<Rightarrow> None
      | Some m \<Rightarrow> Some (case m 1 of None \<Rightarrow> JUndefined | Some s \<Rightarrow> JString s))"

text \<open>Line 83: \<^verbatim>\<open>return fetch(request)\<close>.\<close>

definition pass_through :: "request \<Rightarrow> world \<Rightarrow> response \<times> world" where
  "pass_through request w = (Forwarded request, emit (Fetch_request request) w)"

text \<open>The handler, lines 15 to 84.\<close>

definition fetch :: "request \<Rightarrow> world \<Rightarrow> response \<times> world" where
  "fetch request w =
     (case path_match (pathname (url request)) of
        Some m1 \<Rightarrow>
          (let packageName = template m1 in
           case try_body request packageName w of
             (Inr resp, w') \<Rightarrow> (resp, w')
           | (Inl error, w') \<Rightarrow>
               pass_through request
                 (emit (Console_warn (''Error looking up package version for '' @ packageName @ '':'') [Thrown error])
                       w'))
      | None \<Rightarrow> (Redirect ''https://packages.electronjs.org'' 302, w))"

section \<open>The second handler of the repository (the variant that reads the store only)\<close>

text \<open>
  It writes a fixed entry, reads the store, and redirects only \<^verbatim>\<open>if (version)\<close>;
  otherwise it goes on to \<^verbatim>\<open>return fetch(request)\<close>.
\<close>

definition try_body_kv_only :: "request \<Rightarrow> string \<Rightarrow> world \<Rightarrow> (exn + response option) \<times> world" where
  "try_body_kv_only request packageName w =
     (case KV_put ''asar'' (JString ''4.0.1'') None w of
        (Inl e, w1) \<Rightarrow> (Inl e, w1)
      | (Inr _, w1) \<Rightarrow>
          (case KV_get packageName w1 of
             (Inl e, w2) \<Rightarrow> (Inl e, w2)
           | (Inr version, w2) \<Rightarrow>
               if truthy version then
                 (case build_redirect request packageName version w2 of
                    Inl e \<Rightarrow> (Inl e, w2)
                  | Inr resp \<Rightarrow> (Inr (Some resp), w2))
               else
                 (Inr None,
                  emit (Console_info (''No version found in KV for package: '' @ packageName)) w2)))"

definition fetch_kv_only :: "request \<Rightarrow> world \<Rightarrow> response \<times> world" where
  "fetch_kv_only request w =
     (case path_match (pathname (url request)) of
        Some m1 \<Rightarrow>
          (let packageName = template m1 in
           case try_body_kv_only request packageName w of
             (Inr (Some resp), w') \<Rightarrow> (resp, w')
           | (Inr None, w') \<Rightarrow> pass_through request w'
           | (Inl error, w') \<Rightarrow>
               pass_through request
                 (emit (Console_warn (''Error looking up package version for '' @ packageName @ '':'') [Thrown error])
                       w'))
      | None \<Rightarrow> (Redirect ''https://packages.electronjs.org'' 302, w))"


section \<open>The matcher in closed form\<close>

text \<open>
  What the regular expression accepts, written without the engine: a slash, a first
  segment that is not empty, and then nothing, a slash, \<^verbatim>\<open>/latest\<close>, or \<^verbatim>\<open>/latest/\<close>
  and characters that are not line terminators. \<open>path_match_direct\<close> below proves that
  the engine computes this function.
\<close>

definition tail_ok :: "string \<Rightarrow> bool" where
  "tail_ok t = (t = [] \<or> t = ''/'' \<or> t = ''/latest'' \<or>
     (take 8 t = ''/latest/'' \<and> list_all (\<lambda>c. \<not> line_terminator c) (drop 8 t)))"

definition match_direct :: "string \<Rightarrow> string option" where
  "match_direct p =
     (case p of
        [] \<Rightarrow> None
      | c # r \<Rightarrow>
          if c = CHR ''/'' \<and> takeWhile (\<lambda>x. x \<noteq> CHR ''/'') r \<noteq> [] \<and>
             tail_ok (dropWhile (\<lambda>x. x \<noteq> CHR ''/'') r)
          then Some (takeWhile (\<lambda>x. x \<noteq> CHR ''/'') r) else None)"

text \<open>The part of the literal after the first group.\<close>

definition tail_regex :: regex where
  "tail_regex = Seq (Opt (Alt (Seq (Lit ''/latest'') (Opt (Grp 2 (Seq (Chr CHR ''/'') (Star Dot)))))
                      (Opt (Chr CHR ''/'')))) Eol"


section \<open>The shapes of the specification, and what is counted\<close>

text \<open>
  The four shapes as the specification words them: \<open>name\<close> is one or more characters
  other than \<^verbatim>\<open>/\<close>, and the path is \<^verbatim>\<open>/name\<close>, \<^verbatim>\<open>/name/\<close>, \<^verbatim>\<open>/name/latest\<close>, or
  \<^verbatim>\<open>/name/latest/\<close> followed by anything.
\<close>

definition recognized_shape :: "string \<Rightarrow> string \<Rightarrow> bool" where
  "recognized_shape name p =
     (name \<noteq> [] \<and> CHR ''/'' \<notin> set name \<and>
      (p = ''/'' @ name \<or> p = ''/'' @ name @ ''/'' \<or> p = ''/'' @ name @ ''/latest'' \<or>
       take (length name + 9) p = ''/'' @ name @ ''/latest/''))"

text \<open>The events of one call of the handler: those it added to the world's.\<close>

definition trace :: "request \<Rightarrow> world \<Rightarrow> event list" where
  "trace request w = drop (length (events w)) (events (snd (fetch request w)))"

fun is_KV_get :: "event \<Rightarrow> bool" where
  "is_KV_get (KV_get_called key) = True"
| "is_KV_get e = False"

fun is_KV_put :: "event \<Rightarrow> bool" where
  "is_KV_put (KV_put_called key v ttl) = True"
| "is_KV_put e = False"

fun is_Fetch_url :: "event \<Rightarrow> bool" where
  "is_Fetch_url (Fetch_url u) = True"
| "is_Fetch_url e = False"

section \<open>Concrete requests and worlds\<close>

definition request_of :: "string \<Rightarrow> string \<Rightarrow> request" where
  "request_of path query =
     \<lparr>url = \<lparr>origin = ''https://packages.electronjs.org'', pathname = path,
              search = query, hash = []\<rparr>\<rparr>"

text \<open>An empty store, a registry that answers 404, nothing throws.\<close>

definition quiet_world :: world where
  "quiet_world =
     \<lparr>KV = Map.empty, events = [],
      KV_get_throws = (\<lambda>key. None), KV_put_throws = (\<lambda>key. None),
      network = (\<lambda>u. Inr \<lparr>ok = False, status = 404, json = Inl (Exn ''SyntaxError'')\<rparr>),
      URL_rewrite = (\<lambda>path base. Inl (Exn ''TypeError: Invalid URL''))\<rparr>"

text \<open>A registry that answers 200 with the body \<^verbatim>\<open>{}\<close>.\<close>

definition world_no_version :: world where
  "world_no_version =
     quiet_world\<lparr>network := (\<lambda>u. Inr \<lparr>ok = True, status = 200, json = Inr (JsonObject Map.empty)\<rparr>)\<rparr>"

text \<open>The store holds \<^verbatim>\<open>"asar" -> "4.0.1"\<close>.\<close>

definition world_asar :: world where
  "world_asar = quiet_world\<lparr>KV := [''asar'' \<mapsto> \<lparr>val = ''4.0.1'', expirationTtl = None\<rparr>]\<rparr>"

text \<open>The store holds an empty string for \<^verbatim>\<open>asar\<close>.\<close>

definition world_asar_empty :: world where
  "world_asar_empty = quiet_world\<lparr>KV := [''asar'' \<mapsto> \<lparr>val = [], expirationTtl = None\<rparr>]\<rparr>"

text \<open>An empty store, and a registry that answers \<^verbatim>\<open>{"version": "5.0.0"}\<close>.\<close>

definition world_foo :: world where
  "world_foo =
     quiet_world\<lparr>network := (\<lambda>u. Inr \<lparr>ok = True, status = 200,
        json = Inr (JsonObject [''version'' \<mapsto> JString ''5.0.0''])\<rparr>)\<rparr>"

text \<open>The same, with a store whose reads throw, and with a store whose writes throw.\<close>

definition world_get_throws :: world where
  "world_get_throws = world_foo\<lparr>KV_get_throws := (\<lambda>key. Some (Exn ''KV GET failed''))\<rparr>"

definition world_put_throws :: world where
  "world_put_throws = world_foo\<lparr>KV_put_throws := (\<lambda>key. Some (Exn ''KV PUT failed''))\<rparr>"

section \<open>Properties of the matcher\<close>

lemma run_Star:
  "run (Star a) (i, s, k) =
     concat (map (\<lambda>(j, t, k'). if length t < length s then run (Star a) (j, t, k') else [])
                 (run a (i, s, k)))
     @ [(i, s, k)]"
  by simp

declare run.simps(9) [simp del]

declare regexp_exec.simps [simp del]

lemma set_run_Seq: "set (run (Seq a b) st) = (\<Union>x\<in>set (run a st). set (run b x))"
  by (cases st) simp

lemma set_run_Seq_Eol:
  "set (run (Seq a Eol) st) = {x \<in> set (run a st). fst (snd x) = []}"
  by (auto simp: set_run_Seq split: if_splits)

lemma run_Star_Dot_Nil: "run (Star Dot) (i, [], k) = [(i, [], k)]"
  by (simp add: run_Star)

lemma run_Star_Dot_Cons: "run (Star Dot) (i, x # xs, k) =
   (if \<not> line_terminator x then run (Star Dot) (Suc i, xs, k) else []) @ [(i, x # xs, k)]"
  by (simp add: run_Star)

lemma run_Star_Dot_end:
  "(j, [], k') \<in> set (run (Star Dot) (i, s, k)) \<longleftrightarrow>
     list_all (\<lambda>c. \<not> line_terminator c) s \<and> j = i + length s \<and> k' = k"
proof (induction s arbitrary: i)
  case Nil
  show ?case by (auto simp: run_Star_Dot_Nil)
next
  case (Cons x xs)
  show ?case using Cons [of "Suc i"] by (auto simp: run_Star_Dot_Cons)
qed

lemma run_Lit:
  "run (Lit l) (j, t, k) =
     (if take (length l) t = l then [(j + length l, drop (length l) t, k)] else [])"
proof (induction l arbitrary: j t)
  case Nil
  show ?case by simp
next
  case (Cons c cs)
  show ?case by (cases t) (auto simp: Cons)
qed

lemma run_tail_end:
  "(j', t', k') \<in> set (run tail_regex (j, t, k)) \<Longrightarrow> t' = [] \<and> k' 1 = k 1"
  unfolding tail_regex_def set_run_Seq_Eol
  by (auto simp: run_Lit set_run_Seq run_Star_Dot_end split: if_splits list.splits)

lemma run_Star_NotChr_Nil: "run (Star (NotChr c)) (i, [], k) = [(i, [], k)]"
  by (simp add: run_Star)

lemma run_Star_NotChr_Cons:
  "run (Star (NotChr c)) (i, x # xs, k) =
     (if x \<noteq> c then run (Star (NotChr c)) (Suc i, xs, k) else []) @ [(i, x # xs, k)]"
  by (simp add: run_Star)

lemma prefixes_Suc:
  "{f n | n. n \<le> Suc m} = insert (f 0) {f (Suc n) | n. n \<le> m}"
proof (rule set_eqI)
  fix z
  show "z \<in> {f n | n. n \<le> Suc m} \<longleftrightarrow> z \<in> insert (f 0) {f (Suc n) | n. n \<le> m}"
  proof
    assume "z \<in> {f n | n. n \<le> Suc m}"
    then obtain n where n: "z = f n" "n \<le> Suc m" by blast
    then show "z \<in> insert (f 0) {f (Suc n) | n. n \<le> m}"
      by (cases n) auto
  next
    assume "z \<in> insert (f 0) {f (Suc n) | n. n \<le> m}"
    then show "z \<in> {f n | n. n \<le> Suc m}" by auto
  qed
qed

lemma set_run_Star_NotChr:
  "set (run (Star (NotChr c)) (i, s, k)) =
     {(i + n, drop n s, k) | n. n \<le> length (takeWhile (\<lambda>x. x \<noteq> c) s)}"
proof (induction s arbitrary: i)
  case Nil
  show ?case by (simp only: run_Star_NotChr_Nil) simp
next
  case (Cons x xs)
  show ?case
  proof (cases "x = c")
    case True
    then show ?thesis by (simp only: run_Star_NotChr_Cons) simp
  next
    case False
    have "{(i + n, drop n (x # xs), k) | n. n \<le> Suc (length (takeWhile (\<lambda>x. x \<noteq> c) xs))}
        = insert (i + 0, drop 0 (x # xs), k)
            {(i + Suc n, drop (Suc n) (x # xs), k) | n. n \<le> length (takeWhile (\<lambda>x. x \<noteq> c) xs)}"
      by (rule prefixes_Suc)
    with False Cons [of "Suc i"] show ?thesis
      by (simp only: run_Star_NotChr_Cons) simp
  qed
qed

lemma tail_ok_iff:
  "tail_ok t \<longleftrightarrow>
     t = [] \<or> t = ''/'' \<or> t = ''/latest'' \<or>
     (\<exists>rest. t = ''/latest/'' @ rest \<and> list_all (\<lambda>c. \<not> line_terminator c) rest)"
proof -
  have "take 8 t = ''/latest/'' \<longleftrightarrow> (\<exists>rest. t = ''/latest/'' @ rest)"
  proof
    assume "take 8 t = ''/latest/''"
    then have "t = ''/latest/'' @ drop 8 t"
      using append_take_drop_id [of 8 t] by simp
    then show "\<exists>rest. t = ''/latest/'' @ rest" ..
  next
    assume "\<exists>rest. t = ''/latest/'' @ rest"
    then show "take 8 t = ''/latest/''" by auto
  qed
  then show ?thesis unfolding tail_ok_def by auto
qed

lemma run_tail_complete:
  assumes "tail_ok t"
  shows "run tail_regex (j, t, k) \<noteq> []"
proof -
  from assms consider "t = []" | "t = ''/''" | "t = ''/latest''"
    | rest where "t = ''/latest/'' @ rest" "list_all (\<lambda>c. \<not> line_terminator c) rest"
    unfolding tail_ok_iff by blast
  then have "\<exists>x. x \<in> set (run tail_regex (j, t, k))"
  proof cases
    case 1
    then show ?thesis
      unfolding tail_regex_def set_run_Seq_Eol by (simp add: run_Lit)
  next
    case 2
    then show ?thesis
      unfolding tail_regex_def set_run_Seq_Eol by (simp add: run_Lit)
  next
    case 3
    then show ?thesis
      unfolding tail_regex_def set_run_Seq_Eol by (simp add: run_Lit)
  next
    case 4
    have "(Suc (Suc (Suc (Suc (Suc (Suc (Suc (Suc j))))))) + length rest, [], k) \<in> set (run (Star Dot) (Suc (Suc (Suc (Suc (Suc (Suc (Suc (Suc j))))))), rest, k))"
      using 4 by (simp add: run_Star_Dot_end)
    then show ?thesis
      unfolding tail_regex_def set_run_Seq_Eol using 4(1)
      by (force simp add: run_Lit set_run_Seq)
  qed
  then show ?thesis by (cases "run tail_regex (j, t, k)") auto
qed

lemma run_tail_sound:
  assumes "x \<in> set (run tail_regex (j, t, k))"
  shows "tail_ok t"
  using assms unfolding tail_regex_def set_run_Seq_Eol tail_ok_iff
  by (auto simp: run_Lit set_run_Seq run_Star_Dot_end split: if_splits list.splits)

lemma run_tail_nonempty: "run tail_regex (j, t, k) \<noteq> [] \<longleftrightarrow> tail_ok t"
proof
  assume "run tail_regex (j, t, k) \<noteq> []"
  then obtain x where "x \<in> set (run tail_regex (j, t, k))"
    by (cases "run tail_regex (j, t, k)") auto
  then show "tail_ok t" by (rule run_tail_sound)
next
  assume "tail_ok t"
  then show "run tail_regex (j, t, k) \<noteq> []" by (rule run_tail_complete)
qed


lemma path_regex_tail:
  "path_regex = Seq Bol (Seq (Chr CHR ''/'') (Seq (Grp 1 (Plus (NotChr CHR ''/''))) tail_regex))"
  by (simp add: path_regex_def tail_regex_def)

lemma tail_ok_hd: "tail_ok t \<Longrightarrow> t = [] \<or> hd t = CHR ''/''"
  unfolding tail_ok_iff by auto

lemma drop_in_takeWhile:
  "n < length (takeWhile P xs) \<Longrightarrow> drop n xs \<noteq> [] \<and> P (hd (drop n xs))"
proof (induction xs arbitrary: n)
  case Nil
  then show ?case by simp
next
  case (Cons x xs)
  then show ?case by (cases n) (auto split: if_splits)
qed

lemma run_path_regex_sound:
  assumes "(j, t, k') \<in> set (run path_regex (0, p, Map.empty))"
  shows "\<exists>r. p = CHR ''/'' # r \<and> takeWhile (\<lambda>x. x \<noteq> CHR ''/'') r \<noteq> [] \<and>
             tail_ok (dropWhile (\<lambda>x. x \<noteq> CHR ''/'') r) \<and>
             k' 1 = Some (takeWhile (\<lambda>x. x \<noteq> CHR ''/'') r)"
proof -
  let ?P = "\<lambda>x. x \<noteq> CHR ''/''"
  from assms obtain y ys n where p: "p = CHR ''/'' # y # ys" and y: "y \<noteq> CHR ''/''"
    and n: "n \<le> length (takeWhile ?P ys)"
    and x: "(j, t, k') \<in> set (run tail_regex (Suc (Suc 0) + n, drop n ys, [1 \<mapsto> take (Suc n) (y # ys)]))"
    unfolding path_regex_tail Plus_def
    by (auto simp: set_run_Seq set_run_Star_NotChr split: list.splits if_splits)
  from x have ok: "tail_ok (drop n ys)" by (rule run_tail_sound)
  have "n = length (takeWhile ?P ys)"
  proof (rule ccontr)
    assume "n \<noteq> length (takeWhile ?P ys)"
    with n have "n < length (takeWhile ?P ys)" by simp
    from drop_in_takeWhile [OF this] tail_ok_hd [OF ok] show False by simp
  qed
  then have tk: "take n ys = takeWhile ?P ys" and dr: "drop n ys = dropWhile ?P ys"
    by (metis takeWhile_eq_take, metis dropWhile_eq_drop)
  from run_tail_end [OF x] have "k' 1 = Some (take (Suc n) (y # ys))" by simp
  with tk y have k1: "k' 1 = Some (takeWhile ?P (y # ys))" by simp
  from y have nonempty: "takeWhile ?P (y # ys) \<noteq> []" by simp
  from ok dr y have "tail_ok (dropWhile ?P (y # ys))" by simp
  with p nonempty k1 show ?thesis by blast
qed

lemma run_path_regex_complete:
  assumes "takeWhile (\<lambda>x. x \<noteq> CHR ''/'') r \<noteq> []"
    and "tail_ok (dropWhile (\<lambda>x. x \<noteq> CHR ''/'') r)"
  shows "run path_regex (0, CHR ''/'' # r, Map.empty) \<noteq> []"
proof -
  let ?P = "\<lambda>x. x \<noteq> CHR ''/''"
  from assms(1) obtain y ys where r: "r = y # ys" and y: "y \<noteq> CHR ''/''"
    by (cases r) (auto split: if_splits)
  let ?n = "length (takeWhile ?P ys)"
  let ?st = "(Suc (Suc 0) + ?n, drop ?n ys, [1 \<mapsto> take (Suc ?n) (y # ys)])"
  have "drop ?n ys = dropWhile ?P r" using r y by (simp add: dropWhile_eq_drop)
  with assms(2) have "run tail_regex ?st \<noteq> []" by (simp add: run_tail_nonempty)
  then obtain x where x: "x \<in> set (run tail_regex ?st)"
    by (cases "run tail_regex ?st") auto
  have "(Suc (Suc 0) + ?n, drop ?n ys, Map.empty) \<in> set (run (Star (NotChr CHR ''/'')) (Suc (Suc 0), ys, Map.empty))"
    unfolding set_run_Star_NotChr by blast
  with x have "x \<in> set (run path_regex (0, CHR ''/'' # r, Map.empty))"
    unfolding path_regex_tail Plus_def using r y
    by (force simp: set_run_Seq)
  then show ?thesis by auto
qed

lemma regexp_exec_path_regex_Suc: "regexp_exec path_regex (Suc i) s = None"
  by (induction s arbitrary: i) (simp_all add: regexp_exec.simps path_regex_def)

lemma js_match_path_regex:
  "js_match p path_regex =
     (case run path_regex (0, p, Map.empty) of [] \<Rightarrow> None | (j, t, k) # _ \<Rightarrow> Some k)"
  unfolding js_match_def
  by (cases p) (simp_all add: regexp_exec.simps regexp_exec_path_regex_Suc split: list.splits)

lemma path_match_direct: "path_match p = map_option JString (match_direct p)"
proof (cases "run path_regex (0, p, Map.empty)")
  case Nil
  have "match_direct p = None"
  proof (rule ccontr)
    assume "match_direct p \<noteq> None"
    then obtain r where "p = CHR ''/'' # r" "takeWhile (\<lambda>x. x \<noteq> CHR ''/'') r \<noteq> []"
      "tail_ok (dropWhile (\<lambda>x. x \<noteq> CHR ''/'') r)"
      unfolding match_direct_def by (auto split: list.splits if_splits)
    with run_path_regex_complete Nil show False by blast
  qed
  with Nil show ?thesis by (simp add: path_match_def js_match_path_regex)
next
  case (Cons x xs)
  obtain j t k' where x: "x = (j, t, k')" by (cases x)
  with Cons have "(j, t, k') \<in> set (run path_regex (0, p, Map.empty))" by simp
  from run_path_regex_sound [OF this] Cons x show ?thesis
    by (auto simp: path_match_def js_match_path_regex match_direct_def)
qed



lemma takeWhile_name:
  assumes "CHR ''/'' \<notin> set name"
  shows "takeWhile (\<lambda>x. x \<noteq> CHR ''/'') (name @ CHR ''/'' # t) = name"
    and "dropWhile (\<lambda>x. x \<noteq> CHR ''/'') (name @ CHR ''/'' # t) = CHR ''/'' # t"
    and "takeWhile (\<lambda>x. x \<noteq> CHR ''/'') name = name"
    and "dropWhile (\<lambda>x. x \<noteq> CHR ''/'') name = []"
  using assms by (induction name) auto

lemma match_direct_shape:
  assumes "name \<noteq> []" and "CHR ''/'' \<notin> set name" and "tail_ok t"
  shows "match_direct (CHR ''/'' # name @ t) = Some name"
proof (cases t)
  case Nil
  with assms show ?thesis by (simp add: match_direct_def takeWhile_name)
next
  case (Cons c u)
  with tail_ok_hd [OF assms(3)] have t: "t = CHR ''/'' # u" by simp
  with assms show ?thesis by (simp add: match_direct_def takeWhile_name)
qed

lemma recognized_shape_name:
  assumes "recognized_shape name p"
  shows "name = takeWhile (\<lambda>x. x \<noteq> CHR ''/'') (tl p)"
proof -
  from assms have n: "CHR ''/'' \<notin> set name" by (simp add: recognized_shape_def)
  from assms consider "p = ''/'' @ name" | t where "p = ''/'' @ name @ CHR ''/'' # t"
  proof -
    assume a: "p = ''/'' @ name \<Longrightarrow> thesis" and b: "\<And>t. p = ''/'' @ name @ CHR ''/'' # t \<Longrightarrow> thesis"
    from assms have "p = ''/'' @ name \<or> p = ''/'' @ name @ ''/'' \<or> p = ''/'' @ name @ ''/latest'' \<or>
       take (length name + 9) p = ''/'' @ name @ ''/latest/''"
      by (simp add: recognized_shape_def)
    moreover {
      assume "take (length name + 9) p = ''/'' @ name @ ''/latest/''"
      then have "p = (''/'' @ name @ ''/latest/'') @ drop (length name + 9) p"
        using append_take_drop_id [of "length name + 9" p] by simp
      then have "p = ''/'' @ name @ CHR ''/'' # (''latest/'' @ drop (length name + 9) p)" by simp
      then have thesis by (rule b) }
    ultimately show thesis using a b by auto
  qed
  then show ?thesis
    by cases (simp_all add: takeWhile_name [OF n])
qed

lemma path_match_recognized:
  assumes "path_match p = Some v"
  shows "\<exists>name. recognized_shape name p \<and> v = JString name"
proof -
  let ?P = "\<lambda>x. x \<noteq> CHR ''/''"
  from assms obtain r where p: "p = CHR ''/'' # r" and ne: "takeWhile ?P r \<noteq> []"
    and ok: "tail_ok (dropWhile ?P r)" and v: "v = JString (takeWhile ?P r)"
    unfolding path_match_direct match_direct_def
    by (auto split: list.splits if_splits)
  let ?name = "takeWhile ?P r"
  have r: "r = ?name @ dropWhile ?P r" by simp
  have nos: "CHR ''/'' \<notin> set ?name" by (auto dest: set_takeWhileD)
  from ok have "p = ''/'' @ ?name \<or> p = ''/'' @ ?name @ ''/'' \<or> p = ''/'' @ ?name @ ''/latest'' \<or>
       take (length ?name + 9) p = ''/'' @ ?name @ ''/latest/''"
    unfolding tail_ok_iff
  proof (elim disjE exE conjE)
    assume "dropWhile ?P r = []"
    with r p have "p = ''/'' @ ?name" by (metis append_Cons append_Nil append_Nil2)
    then show ?thesis by blast
  next
    assume "dropWhile ?P r = ''/''"
    with r p have "p = ''/'' @ ?name @ ''/''" by (metis append_Cons append_Nil)
    then show ?thesis by blast
  next
    assume "dropWhile ?P r = ''/latest''"
    with r p have "p = ''/'' @ ?name @ ''/latest''" by (metis append_Cons append_Nil)
    then show ?thesis by blast
  next
    fix rest assume "dropWhile ?P r = ''/latest/'' @ rest"
    with r p have "p = (''/'' @ ?name @ ''/latest/'') @ rest" by (metis append_Cons append_Nil append_assoc)
    then have "take (length (''/'' @ ?name @ ''/latest/'')) p = ''/'' @ ?name @ ''/latest/''"
      by (metis append_eq_conv_conj)
    moreover have "length (''/'' @ ?name @ ''/latest/'') = length ?name + 9" by simp
    ultimately have "take (length ?name + 9) p = ''/'' @ ?name @ ''/latest/''" by (simp only:)
    then show ?thesis by blast
  qed
  with ne nos have "recognized_shape ?name p" by (simp add: recognized_shape_def)
  with v show ?thesis by blast
qed
text \<open>
  Claim C4. For a name of one or more characters other than \<^verbatim>\<open>/\<close>, each of the paths
  \<^verbatim>\<open>/name\<close>, \<^verbatim>\<open>/name/\<close>, \<^verbatim>\<open>/name/latest\<close> and \<^verbatim>\<open>/name/latest/rest\<close> is matched, and
  the first group, the package name, is \<open>name\<close> itself. The matcher is a function of
  the path alone. In the fourth shape \<open>rest\<close> holds no line terminator, which \<^verbatim>\<open>.\<close>
  does not match: a pathname never does, the URL parser removes or encodes them.
\<close>

theorem C4_path_matcher_extracts_name:
  assumes "name \<noteq> []" and "CHR ''/'' \<notin> set name"
    and "list_all (\<lambda>c. \<not> line_terminator c) rest"
  shows "path_match (''/'' @ name) = Some (JString name)
       \<and> path_match (''/'' @ name @ ''/'') = Some (JString name)
       \<and> path_match (''/'' @ name @ ''/latest'') = Some (JString name)
       \<and> path_match (''/'' @ name @ ''/latest/'' @ rest) = Some (JString name)"
proof -
  have 1: "tail_ok []" and 2: "tail_ok ''/''" and 3: "tail_ok ''/latest''"
    by (simp_all add: tail_ok_def)
  have 4: "tail_ok (''/latest/'' @ rest)"
    using assms(3) unfolding tail_ok_iff by blast
  from match_direct_shape [OF assms(1,2) 1] match_direct_shape [OF assms(1,2) 2]
    match_direct_shape [OF assms(1,2) 3] match_direct_shape [OF assms(1,2) 4]
  show ?thesis by (simp add: path_match_direct)
qed

theorem C4_path_matcher_extracts_name_witness:
  "path_match ''/asar'' = Some (JString ''asar'')
   \<and> path_match ''/asar/'' = Some (JString ''asar'')
   \<and> path_match ''/asar/latest'' = Some (JString ''asar'')
   \<and> path_match ''/asar/latest/docs/api'' = Some (JString ''asar'')"
  using C4_path_matcher_extracts_name [of "''asar''" "''docs/api''"]
  by (simp add: line_terminator_def)


section \<open>Evaluating the handler\<close>

lemmas handler_defs =
  fetch_def try_body_def query_registry_def build_redirect_def pass_through_def
  KV_get_def KV_put_def cached_def fetch_url_def emit_def new_URL_def
  redirectPath_def registry_url_def base_origin_def toString_def

lemmas verbatim_defs = url_path_verbatim_def url_code_point_verbatim_def dot_segment_def

lemmas world_defs =
  request_of_def quiet_world_def world_no_version_def world_asar_def world_asar_empty_def
  world_foo_def world_get_throws_def world_put_throws_def

lemma path_match_bar: "path_match ''/bar'' = Some (JString ''bar'')"
  by (simp add: path_match_direct match_direct_def tail_ok_def)

text \<open>
  Claim C1. When the registry call fails, or its body has no usable version, the
  request is to be passed through and no redirect built. The handler does not do so:
  with an empty store and a registry that answers 404, and also with a registry that
  answers 200 and a body without \<^verbatim>\<open>version\<close>, a request for \<^verbatim>\<open>/bar\<close> is answered with a
  302 to \<^verbatim>\<open>/bar/vnull/index.html\<close>: lines 64 to 72 build the redirect from whatever
  \<^verbatim>\<open>version\<close> holds, and nothing is forwarded to the origin.
\<close>

theorem C1_unresolved_version_is_redirected:
  "fst (fetch (request_of ''/bar'' []) quiet_world) =
     Redirect ''https://packages.electronjs.org/bar/vnull/index.html'' 302
   \<and> Fetch_request (request_of ''/bar'' []) \<notin>
       set (events (snd (fetch (request_of ''/bar'' []) quiet_world)))
   \<and> fst (fetch (request_of ''/bar'' []) world_no_version) =
     Redirect ''https://packages.electronjs.org/bar/vnull/index.html'' 302
   \<and> Fetch_request (request_of ''/bar'' []) \<notin>
       set (events (snd (fetch (request_of ''/bar'' []) world_no_version)))"
  by (simp add: handler_defs verbatim_defs world_defs path_match_bar)

text \<open>
  Claim C5. A request whose path has none of the four shapes is answered with a 302
  to the root of the service, \<^verbatim>\<open>https://packages.electronjs.org\<close>; it is not passed
  through.
\<close>

theorem C5_unmatched_path_redirects_to_root:
  assumes "\<forall>name. \<not> recognized_shape name (pathname (url request))"
  shows "fst (fetch request w) = Redirect ''https://packages.electronjs.org'' 302"
proof -
  have "path_match (pathname (url request)) = None"
  proof (cases "path_match (pathname (url request))")
    case None
    then show ?thesis .
  next
    case (Some v)
    from path_match_recognized [OF this] assms show ?thesis by blast
  qed
  then show ?thesis by (simp add: fetch_def)
qed

theorem C5_unmatched_path_redirects_to_root_witness:
  "(\<forall>name. \<not> recognized_shape name ''/asar/foo'')
   \<and> fst (fetch (request_of ''/asar/foo'' []) quiet_world) =
       Redirect ''https://packages.electronjs.org'' 302
   \<and> (\<forall>name. \<not> recognized_shape name ''//latest'')
   \<and> fst (fetch (request_of ''//latest'' []) quiet_world) =
       Redirect ''https://packages.electronjs.org'' 302"
proof -
  have a: "\<forall>name. \<not> recognized_shape name ''/asar/foo''"
  proof (intro allI notI)
    fix name assume h: "recognized_shape name ''/asar/foo''"
    from recognized_shape_name [OF h] have "name = ''asar''" by simp
    with h show False by (simp add: recognized_shape_def)
  qed
  have b: "\<forall>name. \<not> recognized_shape name ''//latest''"
  proof (intro allI notI)
    fix name assume h: "recognized_shape name ''//latest''"
    from recognized_shape_name [OF h] have "name = []" by simp
    with h show False by (simp add: recognized_shape_def)
  qed
  from a b
    C5_unmatched_path_redirects_to_root [of "request_of ''/asar/foo'' []" quiet_world]
    C5_unmatched_path_redirects_to_root [of "request_of ''//latest'' []" quiet_world]
  show ?thesis by (simp add: request_of_def)
qed

text \<open>
  Claim C9. When the path is not matched the handler reads and writes nothing and sends
  nothing: the world it returns is the world it was given, and the call adds no event
  (no read or write of the store, no outbound request).
\<close>

theorem C9_unmatched_path_has_no_effects:
  assumes "path_match (pathname (url request)) = None"
  shows "snd (fetch request w) = w \<and> trace request w = []"
  using assms by (simp add: fetch_def trace_def)

theorem C9_unmatched_path_has_no_effects_witness:
  "path_match (pathname (url (request_of ''/asar/foo'' []))) = None
   \<and> snd (fetch (request_of ''/asar/foo'' []) world_asar) = world_asar
   \<and> trace (request_of ''/asar/foo'' []) world_asar = []"
proof -
  have "path_match (pathname (url (request_of ''/asar/foo'' []))) = None"
    by (simp add: request_of_def path_match_direct match_direct_def tail_ok_def)
  with C9_unmatched_path_has_no_effects [of "request_of ''/asar/foo'' []" world_asar]
  show ?thesis by simp
qed

lemma fetch_matched:
  assumes "path_match (pathname (url request)) = Some (JString name)"
  shows "fetch request w =
     (case try_body request name w of
        (Inr resp, w') \<Rightarrow> (resp, w')
      | (Inl error, w') \<Rightarrow>
          pass_through request
            (emit (Console_warn (''Error looking up package version for '' @ name @ '':'') [Thrown error]) w'))"
  using assms by (simp add: fetch_def)

lemma build_redirect_verbatim:
  assumes "url_path_verbatim (redirectPath name ver)"
  shows "build_redirect request name ver w =
     Inr (Redirect (''https://packages.electronjs.org'' @ redirectPath name ver @ search (url request)) 302)"
  using assms by (simp add: build_redirect_def new_URL_def toString_def base_origin_def)

lemmas step_defs =
  try_body_def query_registry_def pass_through_def KV_get_def KV_put_def fetch_url_def emit_def

text \<open>
  Claim C6. On a matched path whose package name the store holds with a version that
  is not empty, that version is used: the answer is a 302 to
  \<^verbatim>\<open>/name/v<version>/index.html\<close> on the service's origin with the request's query, the
  only events are the read of the store and a log line, so the registry is not asked,
  and the store is not written. (For a cached \<^verbatim>\<open>"asar" -> "4.0.1"\<close> and
  \<^verbatim>\<open>/asar/latest\<close>: \<^verbatim>\<open>/asar/v4.0.1/index.html\<close>.) The path is one the URL constructor
  leaves as it is.
\<close>

theorem C6_cache_hit_redirects_without_upstream:
  assumes "path_match (pathname (url request)) = Some (JString name)"
    and "KV_get_throws w name = None"
    and "cached w name = JString v" and "v \<noteq> []"
    and "url_path_verbatim (redirectPath name (JString v))"
  shows "fst (fetch request w) =
           Redirect (''https://packages.electronjs.org'' @ ''/'' @ name @ ''/v'' @ v @
                     ''/index.html'' @ search (url request)) 302
       \<and> trace request w =
           [KV_get_called name,
            Console_info (''Found version '' @ v @ '' for '' @ name @ '' in KV'')]
       \<and> (\<forall>u. Fetch_url u \<notin> set (trace request w))
       \<and> KV (snd (fetch request w)) = KV w"
  using assms
  by (simp add: fetch_matched step_defs build_redirect_verbatim trace_def redirectPath_def)


theorem C6_cache_hit_redirects_without_upstream_witness:
  "path_match (pathname (url (request_of ''/asar/latest'' []))) = Some (JString ''asar'')
   \<and> cached world_asar ''asar'' = JString ''4.0.1''
   \<and> fst (fetch (request_of ''/asar/latest'' []) world_asar) =
       Redirect ''https://packages.electronjs.org/asar/v4.0.1/index.html'' 302
   \<and> (\<forall>u. Fetch_url u \<notin> set (trace (request_of ''/asar/latest'' []) world_asar))
   \<and> KV (snd (fetch (request_of ''/asar/latest'' []) world_asar)) = KV world_asar"
proof -
  have m: "path_match (pathname (url (request_of ''/asar/latest'' []))) = Some (JString ''asar'')"
    by (simp add: request_of_def path_match_direct match_direct_def tail_ok_def)
  have g: "KV_get_throws world_asar ''asar'' = None"
    by (simp add: world_defs)
  have c: "cached world_asar ''asar'' = JString ''4.0.1''"
    by (simp add: world_defs cached_def)
  have v: "url_path_verbatim (redirectPath ''asar'' (JString ''4.0.1''))"
    by (simp add: redirectPath_def verbatim_defs)
  from m c C6_cache_hit_redirects_without_upstream [OF m g c _ v]
  show ?thesis by (simp add: request_of_def)
qed

lemma emit_simps [simp]:
  "events (emit e w) = events w @ [e]"
  "KV (emit e w) = KV w"
  "KV_get_throws (emit e w) = KV_get_throws w"
  "KV_put_throws (emit e w) = KV_put_throws w"
  "network (emit e w) = network w"
  "URL_rewrite (emit e w) = URL_rewrite w"
  by (simp_all add: emit_def)

lemma cached_emit [simp]: "cached (emit e w) key = cached w key"
  by (simp add: cached_def)

lemma build_redirect_emit [simp]:
  "build_redirect request name ver (emit e w) = build_redirect request name ver w"
  by (simp add: build_redirect_def new_URL_def)

lemma build_redirect_events:
  "events w = events w' \<Longrightarrow> URL_rewrite w = URL_rewrite w' \<Longrightarrow>
   build_redirect request name ver w = build_redirect request name ver w'"
  by (simp add: build_redirect_def new_URL_def)

lemmas qr_defs = query_registry_def fetch_url_def KV_put_def Let_def

text \<open>The registry branch, outcome by outcome.\<close>

lemma query_registry_rejected:
  assumes "network w (registry_url name) = Inl e"
  shows "query_registry name ver w =
     (Inl e, emit (Fetch_url (registry_url name))
               (emit (Console_info (''No version found for '' @ name @
                                    '' in KV. Querying npm registry...'')) w))"
  using assms by (simp add: qr_defs)

lemma query_registry_not_ok:
  assumes "network w (registry_url name) = Inr r" and "\<not> ok r"
  shows "query_registry name ver w =
     (Inr ver, emit (Console_warn ''failed to look up package from npm registry'' [Status (status r)])
              (emit (Fetch_url (registry_url name))
               (emit (Console_info (''No version found for '' @ name @
                                    '' in KV. Querying npm registry...'')) w)))"
  using assms by (simp add: qr_defs)

lemma query_registry_unparsable:
  assumes "network w (registry_url name) = Inr r" and "ok r"
    and "json r = Inl e \<or> (\<exists>data. json r = Inr data \<and> get_version data = Inl e)"
  shows "query_registry name ver w =
     (Inl e, emit (Fetch_url (registry_url name))
               (emit (Console_info (''No version found for '' @ name @
                                    '' in KV. Querying npm registry...'')) w))"
  using assms by (auto simp: qr_defs)

lemma query_registry_no_version:
  assumes "network w (registry_url name) = Inr r" and "ok r"
    and "json r = Inr data" and "get_version data = Inr npmVersion" and "\<not> truthy npmVersion"
  shows "query_registry name ver w =
     (Inr ver, emit (Console_warn (''No version found for '' @ name @
                                   '' in npm registry response.'') [])
              (emit (Fetch_url (registry_url name))
               (emit (Console_info (''No version found for '' @ name @
                                    '' in KV. Querying npm registry...'')) w)))"
  using assms by (simp add: qr_defs)

lemma query_registry_put_throws:
  assumes "network w (registry_url name) = Inr r" and "ok r"
    and "json r = Inr data" and "get_version data = Inr (JString v)" and "v \<noteq> []"
    and "KV_put_throws w name = Some e"
  shows "query_registry name ver w =
     (Inl e, emit (KV_put_called name (JString v) (Some 600))
              (emit (Fetch_url (registry_url name))
               (emit (Console_info (''No version found for '' @ name @
                                    '' in KV. Querying npm registry...'')) w)))"
  using assms by (simp add: qr_defs)

lemma query_registry_resolved:
  assumes "network w (registry_url name) = Inr r" and "ok r"
    and "json r = Inr data" and "get_version data = Inr (JString v)" and "v \<noteq> []"
    and "KV_put_throws w name = None"
  shows "query_registry name ver w =
     (Inr (JString v),
      (emit (KV_put_called name (JString v) (Some 600))
        (emit (Fetch_url (registry_url name))
          (emit (Console_info (''No version found for '' @ name @
                               '' in KV. Querying npm registry...'')) w)))
      \<lparr>KV := (KV w)(name \<mapsto> \<lparr>val = v, expirationTtl = Some 600\<rparr>)\<rparr>)"
  using assms by (simp add: qr_defs)

text \<open>The outcomes are these six.\<close>

lemma query_registry_cases:
  obtains (rejected) e where "network w (registry_url name) = Inl e"
  | (not_ok) r where "network w (registry_url name) = Inr r" "\<not> ok r"
  | (unparsable) r e where "network w (registry_url name) = Inr r" "ok r"
      "json r = Inl e \<or> (\<exists>data. json r = Inr data \<and> get_version data = Inl e)"
  | (no_version) r data npmVersion where "network w (registry_url name) = Inr r" "ok r"
      "json r = Inr data" "get_version data = Inr npmVersion" "\<not> truthy npmVersion"
  | (put_throws) r data v e where "network w (registry_url name) = Inr r" "ok r"
      "json r = Inr data" "get_version data = Inr (JString v)" "v \<noteq> []"
      "KV_put_throws w name = Some e"
  | (resolved) r data v where "network w (registry_url name) = Inr r" "ok r"
      "json r = Inr data" "get_version data = Inr (JString v)" "v \<noteq> []"
      "KV_put_throws w name = None"
proof (cases "network w (registry_url name)")
  case (Inl e)
  then show ?thesis by (rule rejected)
next
  case (Inr r)
  show ?thesis
  proof (cases "ok r")
    case False
    with Inr show ?thesis by (rule not_ok)
  next
    case True
    show ?thesis
    proof (cases "json r")
      case (Inl e)
      with Inr True show ?thesis by (blast intro: unparsable)
    next
      case data: (Inr data)
      show ?thesis
      proof (cases "get_version data")
        case (Inl e)
        with Inr True data show ?thesis by (blast intro: unparsable)
      next
        case nv: (Inr npmVersion)
        show ?thesis
        proof (cases "truthy npmVersion")
          case False
          with Inr True data nv show ?thesis by (blast intro: no_version)
        next
          case t: True
          then obtain v where v: "npmVersion = JString v" "v \<noteq> []"
            by (cases npmVersion) auto
          show ?thesis
          proof (cases "KV_put_throws w name")
            case None
            with Inr True data nv v show ?thesis by (blast intro: resolved)
          next
            case (Some e)
            with Inr True data nv v show ?thesis by (blast intro: put_throws)
          qed
        qed
      qed
    qed
  qed
qed


text \<open>The handler on a matched path, outcome by outcome.\<close>

lemma fetch_get_throws:
  assumes "path_match (pathname (url request)) = Some (JString name)"
    and "KV_get_throws w name = Some e"
  shows "fetch request w =
     (Forwarded request,
      emit (Fetch_request request)
        (emit (Console_warn (''Error looking up package version for '' @ name @ '':'') [Thrown e])
          (emit (KV_get_called name) w)))"
  using assms by (simp add: fetch_matched try_body_def KV_get_def pass_through_def)

lemma fetch_hit:
  assumes "path_match (pathname (url request)) = Some (JString name)"
    and "KV_get_throws w name = None" and "truthy (cached w name)"
  shows "fetch request w =
     (let w2 = emit (Console_info (''Found version '' @ template (cached w name) @ '' for '' @
                                   name @ '' in KV''))
                 (emit (KV_get_called name) w)
      in case build_redirect request name (cached w name) w of
           Inr resp \<Rightarrow> (resp, w2)
         | Inl error \<Rightarrow>
             pass_through request
               (emit (Console_warn (''Error looking up package version for '' @ name @ '':'') [Thrown error]) w2))"
  using assms
  by (simp add: fetch_matched try_body_def KV_get_def Let_def split: sum.splits)

lemma fetch_miss:
  assumes "path_match (pathname (url request)) = Some (JString name)"
    and "KV_get_throws w name = None" and "\<not> truthy (cached w name)"
  shows "fetch request w =
     (case query_registry name (cached w name) (emit (KV_get_called name) w) of
        (Inl error, w2) \<Rightarrow>
          pass_through request
            (emit (Console_warn (''Error looking up package version for '' @ name @ '':'') [Thrown error]) w2)
      | (Inr version, w2) \<Rightarrow>
          (case build_redirect request name version w2 of
             Inr resp \<Rightarrow> (resp, w2)
           | Inl error \<Rightarrow>
               pass_through request
                 (emit (Console_warn (''Error looking up package version for '' @ name @ '':'') [Thrown error])
                       w2)))"
  using assms
  by (simp add: fetch_matched try_body_def KV_get_def Let_def split: sum.splits prod.splits)

lemma build_redirect_KV [simp]:
  "build_redirect request name ver (w\<lparr>KV := m\<rparr>) = build_redirect request name ver w"
  by (simp add: build_redirect_def new_URL_def)

lemma trace_counts:
  "length (filter is_KV_get (trace request w)) \<le> 1
   \<and> length (filter is_KV_put (trace request w)) \<le> 1
   \<and> length (filter is_Fetch_url (trace request w)) \<le> 1"
proof (cases "path_match (pathname (url request))")
  case None
  then show ?thesis by (simp add: fetch_def trace_def)
next
  case (Some m1)
  from path_match_recognized [OF this] obtain name where "m1 = JString name" by blast
  with Some have m: "path_match (pathname (url request)) = Some (JString name)" by simp
  show ?thesis
  proof (cases "KV_get_throws w name")
    case (Some e)
    show ?thesis by (simp add: trace_def fetch_get_throws [OF m Some])
  next
    case None
    show ?thesis
    proof (cases "truthy (cached w name)")
      case True
      show ?thesis
        by (simp add: trace_def fetch_hit [OF m None True] Let_def pass_through_def split: sum.splits)
    next
      case False
      let ?w1 = "emit (KV_get_called name) w"
      show ?thesis
      proof (cases rule: query_registry_cases [of ?w1 name])
        case (rejected e)
        show ?thesis
          by (simp add: trace_def fetch_miss [OF m None False] pass_through_def
                query_registry_rejected [OF rejected])
      next
        case (not_ok r)
        show ?thesis
          by (simp add: trace_def fetch_miss [OF m None False] pass_through_def
                query_registry_not_ok [OF not_ok] split: sum.splits)
      next
        case (unparsable r e)
        show ?thesis
          by (simp add: trace_def fetch_miss [OF m None False] pass_through_def
                query_registry_unparsable [OF unparsable])
      next
        case (no_version r data npmVersion)
        show ?thesis
          by (simp add: trace_def fetch_miss [OF m None False] pass_through_def
                query_registry_no_version [OF no_version] split: sum.splits)
      next
        case (put_throws r data v e)
        show ?thesis
          by (simp add: trace_def fetch_miss [OF m None False] pass_through_def
                query_registry_put_throws [OF put_throws])
      next
        case (resolved r data v)
        show ?thesis
          by (simp add: trace_def fetch_miss [OF m None False] pass_through_def
                query_registry_resolved [OF resolved] split: sum.splits)
      qed
    qed
  qed
qed

lemma fetch_resolved:
  assumes m: "path_match (pathname (url request)) = Some (JString name)"
    and g: "KV_get_throws w name = None" and c: "\<not> truthy (cached w name)"
    and r: "network w (registry_url name) = Inr r" "ok r" "json r = Inr data"
      "get_version data = Inr (JString v)" "v \<noteq> []" "KV_put_throws w name = None"
  shows "fetch request w =
     (let w2 = (emit (KV_put_called name (JString v) (Some 600))
                 (emit (Fetch_url (registry_url name))
                   (emit (Console_info (''No version found for '' @ name @
                                        '' in KV. Querying npm registry...''))
                     (emit (KV_get_called name) w))))
               \<lparr>KV := (KV w)(name \<mapsto> \<lparr>val = v, expirationTtl = Some 600\<rparr>)\<rparr>
      in case build_redirect request name (JString v) w of
           Inr resp \<Rightarrow> (resp, w2)
         | Inl error \<Rightarrow>
             pass_through request
               (emit (Console_warn (''Error looking up package version for '' @ name @ '':'') [Thrown error]) w2))"
proof -
  let ?w1 = "emit (KV_get_called name) w"
  from r have "query_registry name (cached w name) ?w1 =
     (Inr (JString v),
      (emit (KV_put_called name (JString v) (Some 600))
        (emit (Fetch_url (registry_url name))
          (emit (Console_info (''No version found for '' @ name @
                               '' in KV. Querying npm registry...'')) ?w1)))
      \<lparr>KV := (KV ?w1)(name \<mapsto> \<lparr>val = v, expirationTtl = Some 600\<rparr>)\<rparr>)"
    by (intro query_registry_resolved) simp_all
  then show ?thesis
    by (simp add: fetch_miss [OF m g c] Let_def split: sum.splits)
qed

lemma fetch_put_throws:
  assumes m: "path_match (pathname (url request)) = Some (JString name)"
    and g: "KV_get_throws w name = None" and c: "\<not> truthy (cached w name)"
    and r: "network w (registry_url name) = Inr r" "ok r" "json r = Inr data"
      "get_version data = Inr (JString v)" "v \<noteq> []" "KV_put_throws w name = Some e"
  shows "fetch request w =
     (Forwarded request,
      emit (Fetch_request request)
        (emit (Console_warn (''Error looking up package version for '' @ name @ '':'') [Thrown e])
          (emit (KV_put_called name (JString v) (Some 600))
            (emit (Fetch_url (registry_url name))
              (emit (Console_info (''No version found for '' @ name @
                                   '' in KV. Querying npm registry...''))
                (emit (KV_get_called name) w))))))"
proof -
  let ?w1 = "emit (KV_get_called name) w"
  from r have "query_registry name (cached w name) ?w1 =
     (Inl e, emit (KV_put_called name (JString v) (Some 600))
        (emit (Fetch_url (registry_url name))
          (emit (Console_info (''No version found for '' @ name @
                               '' in KV. Querying npm registry...'')) ?w1)))"
    by (intro query_registry_put_throws) simp_all
  then show ?thesis
    by (simp add: fetch_miss [OF m g c] pass_through_def)
qed

lemma put_only_when_resolved:
  assumes "KV_put_called key x ttl \<in> set (trace request w)"
  shows "path_match (pathname (url request)) = Some (JString key) \<and> ttl = Some 600 \<and> truthy x \<and>
         (\<exists>r data. network w (registry_url key) = Inr r \<and> ok r \<and> json r = Inr data \<and>
                   get_version data = Inr x)"
proof (cases "path_match (pathname (url request))")
  case None
  with assms show ?thesis by (simp add: fetch_def trace_def)
next
  case (Some m1)
  from path_match_recognized [OF this] obtain name where "m1 = JString name" by blast
  with Some have m: "path_match (pathname (url request)) = Some (JString name)" by simp
  show ?thesis
  proof (cases "KV_get_throws w name")
    case (Some e)
    with assms show ?thesis by (simp add: trace_def fetch_get_throws [OF m Some])
  next
    case None
    show ?thesis
    proof (cases "truthy (cached w name)")
      case True
      with assms show ?thesis
        by (simp add: trace_def fetch_hit [OF m None True] Let_def pass_through_def split: sum.splits)
    next
      case False
      let ?w1 = "emit (KV_get_called name) w"
      show ?thesis
      proof (cases rule: query_registry_cases [of ?w1 name])
        case (rejected e)
        with assms show ?thesis
          by (simp add: trace_def fetch_miss [OF m None False] pass_through_def
                query_registry_rejected [OF rejected])
      next
        case (not_ok r)
        with assms show ?thesis
          by (simp add: trace_def fetch_miss [OF m None False] pass_through_def
                query_registry_not_ok [OF not_ok] split: sum.splits)
      next
        case (unparsable r e)
        with assms show ?thesis
          by (simp add: trace_def fetch_miss [OF m None False] pass_through_def
                query_registry_unparsable [OF unparsable])
      next
        case (no_version r data npmVersion)
        with assms show ?thesis
          by (simp add: trace_def fetch_miss [OF m None False] pass_through_def
                query_registry_no_version [OF no_version] split: sum.splits)
      next
        case (put_throws r data v e)
        with assms m show ?thesis
          by (simp add: trace_def fetch_miss [OF m None False] pass_through_def
                query_registry_put_throws [OF put_throws])
      next
        case (resolved r data v)
        with assms m show ?thesis
          by (simp add: trace_def fetch_miss [OF m None False] pass_through_def
                query_registry_resolved [OF resolved] split: sum.splits)
      qed
    qed
  qed
qed



lemma fetch_resolved_KV:
  assumes m: "path_match (pathname (url request)) = Some (JString name)"
    and g: "KV_get_throws w name = None" and c: "\<not> truthy (cached w name)"
    and r: "network w (registry_url name) = Inr r" "ok r" "json r = Inr data"
      "get_version data = Inr (JString v)" "v \<noteq> []" "KV_put_throws w name = None"
  shows "KV (snd (fetch request w)) = (KV w)(name \<mapsto> \<lparr>val = v, expirationTtl = Some 600\<rparr>)"
proof -
  note eq = fetch_resolved [OF m g c r]
  show ?thesis
    by (simp add: eq Let_def pass_through_def split: sum.splits)
qed

lemma fetch_resolved_put:
  assumes m: "path_match (pathname (url request)) = Some (JString name)"
    and g: "KV_get_throws w name = None" and c: "\<not> truthy (cached w name)"
    and r: "network w (registry_url name) = Inr r" "ok r" "json r = Inr data"
      "get_version data = Inr (JString v)" "v \<noteq> []" "KV_put_throws w name = None"
  shows "KV_put_called name (JString v) (Some 600) \<in> set (trace request w)"
proof -
  note eq = fetch_resolved [OF m g c r]
  show ?thesis
    by (simp add: trace_def eq Let_def pass_through_def split: sum.splits)
qed

lemma fetch_resolved_redirect:
  assumes m: "path_match (pathname (url request)) = Some (JString name)"
    and g: "KV_get_throws w name = None" and c: "\<not> truthy (cached w name)"
    and r: "network w (registry_url name) = Inr r" "ok r" "json r = Inr data"
      "get_version data = Inr (JString v)" "v \<noteq> []" "KV_put_throws w name = None"
    and v: "url_path_verbatim (redirectPath name (JString v))"
  shows "fst (fetch request w) =
             Redirect (''https://packages.electronjs.org'' @ ''/'' @ name @ ''/v'' @ v @
                       ''/index.html'' @ search (url request)) 302
           \<and> trace request w =
               [KV_get_called name,
                Console_info (''No version found for '' @ name @
                              '' in KV. Querying npm registry...''),
                Fetch_url (registry_url name),
                KV_put_called name (JString v) (Some 600)]"
proof -
  note eq = fetch_resolved [OF m g c r]
  show ?thesis
    using v by (simp add: trace_def eq Let_def build_redirect_verbatim redirectPath_def)
qed


text \<open>
  Claim C7, as amended. On a matched path with nothing usable in the store, when the
  registry answers with success and a body whose \<^verbatim>\<open>version\<close> is a string that is not
  empty, and the write to the store does not throw, the version is written to the store
  under the package name with a time-to-live of 600 seconds, and it is the version of
  the redirect (for a path the URL constructor leaves as it is). Whatever the request
  and the world, one call of the handler reads the store at most once, writes it at
  most once and asks the registry at most once, and it writes only what a successful
  registry answer gave, with the 600 seconds.
\<close>

theorem C7_upstream_version_is_cached_for_600s:
  "(path_match (pathname (url request)) = Some (JString name) \<and>
    KV_get_throws w name = None \<and> \<not> truthy (cached w name) \<and>
    network w (registry_url name) = Inr r \<and> ok r \<and> json r = Inr data \<and>
    get_version data = Inr (JString v) \<and> v \<noteq> [] \<and> KV_put_throws w name = None
    \<longrightarrow>
      KV (snd (fetch request w)) = (KV w)(name \<mapsto> \<lparr>val = v, expirationTtl = Some 600\<rparr>)
      \<and> KV_put_called name (JString v) (Some 600) \<in> set (trace request w)
      \<and> (url_path_verbatim (redirectPath name (JString v)) \<longrightarrow>
           fst (fetch request w) =
             Redirect (''https://packages.electronjs.org'' @ ''/'' @ name @ ''/v'' @ v @
                       ''/index.html'' @ search (url request)) 302
           \<and> trace request w =
               [KV_get_called name,
                Console_info (''No version found for '' @ name @
                              '' in KV. Querying npm registry...''),
                Fetch_url (registry_url name),
                KV_put_called name (JString v) (Some 600)]))
   \<and> length (filter is_KV_get (trace request w)) \<le> 1
   \<and> length (filter is_KV_put (trace request w)) \<le> 1
   \<and> length (filter is_Fetch_url (trace request w)) \<le> 1
   \<and> (\<forall>key x ttl. KV_put_called key x ttl \<in> set (trace request w) \<longrightarrow>
         path_match (pathname (url request)) = Some (JString key) \<and> ttl = Some 600 \<and> truthy x \<and>
         (\<exists>r data. network w (registry_url key) = Inr r \<and> ok r \<and> json r = Inr data \<and>
                   get_version data = Inr x))"
  (is "(?H \<longrightarrow> ?K \<and> ?P \<and> (?V \<longrightarrow> ?R)) \<and> ?c1 \<and> ?c2 \<and> ?c3 \<and> ?B")
proof -
  have A: "?H \<longrightarrow> ?K \<and> ?P \<and> (?V \<longrightarrow> ?R)"
  proof (rule impI, elim conjE)
    assume m: "path_match (pathname (url request)) = Some (JString name)"
      and g: "KV_get_throws w name = None" and c: "\<not> truthy (cached w name)"
      and r: "network w (registry_url name) = Inr r" "ok r" "json r = Inr data"
        "get_version data = Inr (JString v)" "v \<noteq> []" "KV_put_throws w name = None"
    have "?K" by (rule fetch_resolved_KV [OF m g c r])
    moreover have "?P" by (rule fetch_resolved_put [OF m g c r])
    moreover have "?V \<longrightarrow> ?R"
      by (rule impI) (rule fetch_resolved_redirect [OF m g c r])
    ultimately show "?K \<and> ?P \<and> (?V \<longrightarrow> ?R)" by (intro conjI)
  qed
  note C = trace_counts [of request w]
  have c1: ?c1 using C by (rule conjunct1)
  have c2: ?c2 using C by (rule conjunct2 [THEN conjunct1])
  have c3: ?c3 using C by (rule conjunct2 [THEN conjunct2])
  have B: ?B by (intro allI impI) (rule put_only_when_resolved)
  from A c1 c2 c3 B show ?thesis by (intro conjI)
qed

theorem C7_upstream_version_is_cached_for_600s_witness:
  "path_match (pathname (url (request_of ''/foo'' []))) = Some (JString ''foo'')
   \<and> \<not> truthy (cached world_foo ''foo'')
   \<and> KV (snd (fetch (request_of ''/foo'' []) world_foo)) ''foo'' =
       Some \<lparr>val = ''5.0.0'', expirationTtl = Some 600\<rparr>
   \<and> fst (fetch (request_of ''/foo'' []) world_foo) =
       Redirect ''https://packages.electronjs.org/foo/v5.0.0/index.html'' 302
   \<and> trace (request_of ''/foo'' []) world_foo =
       [KV_get_called ''foo'',
        Console_info ''No version found for foo in KV. Querying npm registry...'',
        Fetch_url ''https://registry.npmjs.org/@electron/foo/latest'',
        KV_put_called ''foo'' (JString ''5.0.0'') (Some 600)]"
proof -
  let ?D = "JsonObject [''version'' \<mapsto> JString ''5.0.0'']"
  let ?R = "\<lparr>ok = True, status = 200, json = Inr ?D\<rparr>"
  have m: "path_match (pathname (url (request_of ''/foo'' []))) = Some (JString ''foo'')"
    by (simp add: request_of_def path_match_direct match_direct_def tail_ok_def)
  have c: "\<not> truthy (cached world_foo ''foo'')"
    by (simp add: world_defs cached_def)
  have g: "KV_get_throws world_foo ''foo'' = None" and p: "KV_put_throws world_foo ''foo'' = None"
    by (simp_all add: world_defs)
  have n: "network world_foo (registry_url ''foo'') = Inr ?R"
    by (simp add: world_defs)
  have v: "url_path_verbatim (redirectPath ''foo'' (JString ''5.0.0''))"
    by (simp add: redirectPath_def verbatim_defs)
  have H: "path_match (pathname (url (request_of ''/foo'' []))) = Some (JString ''foo'') \<and>
    KV_get_throws world_foo ''foo'' = None \<and> \<not> truthy (cached world_foo ''foo'') \<and>
    network world_foo (registry_url ''foo'') = Inr ?R \<and> ok ?R \<and> json ?R = Inr ?D \<and>
    get_version ?D = Inr (JString ''5.0.0'') \<and> ''5.0.0'' \<noteq> [] \<and>
    KV_put_throws world_foo ''foo'' = None"
    using m g c n p by simp
  note K = C7_upstream_version_is_cached_for_600s
    [of "request_of ''/foo'' []" "''foo''" world_foo ?R ?D "''5.0.0''",
     THEN conjunct1, THEN mp, OF H]
  from K have 1: "KV (snd (fetch (request_of ''/foo'' []) world_foo)) ''foo'' =
       Some \<lparr>val = ''5.0.0'', expirationTtl = Some 600\<rparr>"
    by simp
  from K [THEN conjunct2, THEN conjunct2, THEN mp, OF v]
  have 2: "fst (fetch (request_of ''/foo'' []) world_foo) =
       Redirect ''https://packages.electronjs.org/foo/v5.0.0/index.html'' 302"
    and 3: "trace (request_of ''/foo'' []) world_foo =
       [KV_get_called ''foo'',
        Console_info ''No version found for foo in KV. Querying npm registry...'',
        Fetch_url ''https://registry.npmjs.org/@electron/foo/latest'',
        KV_put_called ''foo'' (JString ''5.0.0'') (Some 600)]"
    by (simp_all add: request_of_def registry_url_def)
  from m c 1 2 3 show ?thesis by (intro conjI)
qed

lemma fetch_hit_redirect:
  assumes m: "path_match (pathname (url request)) = Some (JString name)"
    and g: "KV_get_throws w name = None"
    and c: "cached w name = JString v" and v: "v \<noteq> []"
    and safe: "url_path_verbatim (redirectPath name (JString v))"
  shows "fst (fetch request w) =
           Redirect (''https://packages.electronjs.org'' @ ''/'' @ name @ ''/v'' @ v @
                     ''/index.html'' @ search (url request)) 302"
proof -
  from c v have t: "truthy (cached w name)" by simp
  show ?thesis
    using c safe
    by (simp add: fetch_hit [OF m g t] Let_def build_redirect_verbatim redirectPath_def)
qed

lemma fetch_version_obtained:
  assumes m: "path_match (pathname (url request)) = Some (JString name)"
    and g: "KV_get_throws w name = None" and v: "v \<noteq> []"
    and src: "cached w name = JString v \<or>
         (\<not> truthy (cached w name) \<and> network w (registry_url name) = Inr r \<and> ok r \<and>
          json r = Inr data \<and> get_version data = Inr (JString v) \<and>
          KV_put_throws w name = None)"
    and safe: "url_path_verbatim (redirectPath name (JString v))"
  shows "fst (fetch request w) =
           Redirect (''https://packages.electronjs.org'' @ ''/'' @ name @ ''/v'' @ v @
                     ''/index.html'' @ search (url request)) 302"
  using src
proof
  assume "cached w name = JString v"
  from fetch_hit_redirect [OF m g this v safe] show ?thesis .
next
  assume h: "\<not> truthy (cached w name) \<and> network w (registry_url name) = Inr r \<and> ok r \<and>
          json r = Inr data \<and> get_version data = Inr (JString v) \<and>
          KV_put_throws w name = None"
  then have c: "\<not> truthy (cached w name)"
    and r: "network w (registry_url name) = Inr r" "ok r" "json r = Inr data"
      "get_version data = Inr (JString v)"
    and p: "KV_put_throws w name = None"
    by simp_all
  from fetch_resolved_redirect [OF m g c r v p safe] show ?thesis by (rule conjunct1)
qed

text \<open>
  Claim C2, as amended. When a version that is not empty was obtained, from the store,
  or from the registry with the write to the store not throwing, the answer is a 302
  to the base origin, \<^verbatim>\<open>/\<close>, the package name, \<^verbatim>\<open>/v\<close>, the version and
  \<^verbatim>\<open>/index.html\<close>, followed by the request's query string (for a path the URL
  constructor leaves as it is). The last segment is \<^verbatim>\<open>index.html\<close>, not
  \<^verbatim>\<open>index.index\<close>.
\<close>

theorem C2_redirect_target_is_index_html:
  assumes "path_match (pathname (url request)) = Some (JString name)"
    and "KV_get_throws w name = None" and "v \<noteq> []"
    and "cached w name = JString v \<or>
         (\<not> truthy (cached w name) \<and> network w (registry_url name) = Inr r \<and> ok r \<and>
          json r = Inr data \<and> get_version data = Inr (JString v) \<and>
          KV_put_throws w name = None)"
    and "url_path_verbatim (redirectPath name (JString v))"
  shows "fst (fetch request w) =
           Redirect (''https://packages.electronjs.org'' @ ''/'' @ name @ ''/v'' @ v @
                     ''/index.html'' @ search (url request)) 302"
  using assms by (rule fetch_version_obtained)

lemma path_match_asar_latest:
  "path_match (pathname (url (request_of ''/asar/latest'' q))) = Some (JString ''asar'')"
  by (simp add: request_of_def path_match_direct match_direct_def tail_ok_def)

lemma path_match_foo:
  "path_match (pathname (url (request_of ''/foo'' q))) = Some (JString ''foo'')"
  by (simp add: request_of_def path_match_direct match_direct_def tail_ok_def)

lemma verbatim_asar: "url_path_verbatim (redirectPath ''asar'' (JString ''4.0.1''))"
  by (simp add: redirectPath_def verbatim_defs)

lemma verbatim_foo: "url_path_verbatim (redirectPath ''foo'' (JString ''5.0.0''))"
  by (simp add: redirectPath_def verbatim_defs)

lemma foo_put_throws:
  "fetch (request_of ''/foo'' q) world_put_throws =
     (Forwarded (request_of ''/foo'' q),
      emit (Fetch_request (request_of ''/foo'' q))
        (emit (Console_warn (''Error looking up package version for '' @ ''foo'' @ '':'') [Thrown (Exn ''KV PUT failed'')])
          (emit (KV_put_called ''foo'' (JString ''5.0.0'') (Some 600))
            (emit (Fetch_url (registry_url ''foo''))
              (emit (Console_info (''No version found for '' @ ''foo'' @
                                   '' in KV. Querying npm registry...''))
                (emit (KV_get_called ''foo'') world_put_throws))))))"
proof -
  let ?D = "JsonObject [''version'' \<mapsto> JString ''5.0.0'']"
  let ?R = "\<lparr>ok = True, status = 200, json = Inr ?D\<rparr>"
  have g: "KV_get_throws world_put_throws ''foo'' = None"
    and c: "\<not> truthy (cached world_put_throws ''foo'')"
    and n: "network world_put_throws (registry_url ''foo'') = Inr ?R"
    and p: "KV_put_throws world_put_throws ''foo'' = Some (Exn ''KV PUT failed'')"
    by (simp_all add: world_defs cached_def)
  have r: "ok ?R" "json ?R = Inr ?D" "get_version ?D = Inr (JString ''5.0.0'')" "''5.0.0'' \<noteq> []"
    by simp_all
  show ?thesis by (rule fetch_put_throws [OF path_match_foo g c n r p])
qed

theorem C2_redirect_target_is_index_html_witness:
  "cached world_asar ''asar'' = JString ''4.0.1''
   \<and> fst (fetch (request_of ''/asar/latest'' []) world_asar) =
       Redirect ''https://packages.electronjs.org/asar/v4.0.1/index.html'' 302"
proof -
  have g: "KV_get_throws world_asar ''asar'' = None"
    by (simp add: world_defs)
  have c: "cached world_asar ''asar'' = JString ''4.0.1''"
    by (simp add: world_defs cached_def)
  have v: "''4.0.1'' \<noteq> []" by simp
  from c C2_redirect_target_is_index_html
    [OF path_match_asar_latest g v disjI1 [OF c] verbatim_asar, of "[]"]
  show ?thesis by (simp add: request_of_def)
qed

text \<open>
  Claim C2 as stated fails: with \<^verbatim>\<open>"asar" -> "4.0.1"\<close> in the store, the redirect for
  \<^verbatim>\<open>/asar/latest\<close> ends in \<^verbatim>\<open>/index.html\<close> and is not the URL ending in
  \<^verbatim>\<open>/index.index\<close>; and when the registry gives a version but the write to the store
  throws, the request is forwarded and there is no redirect.
\<close>

theorem C2_index_index_counterexample:
  "cached world_asar ''asar'' = JString ''4.0.1''
   \<and> fst (fetch (request_of ''/asar/latest'' []) world_asar) =
       Redirect ''https://packages.electronjs.org/asar/v4.0.1/index.html'' 302
   \<and> fst (fetch (request_of ''/asar/latest'' []) world_asar) \<noteq>
       Redirect ''https://packages.electronjs.org/asar/v4.0.1/index.index'' 302
   \<and> fst (fetch (request_of ''/foo'' []) world_put_throws) = Forwarded (request_of ''/foo'' [])"
proof -
  have g: "KV_get_throws world_asar ''asar'' = None"
    by (simp add: world_defs)
  have c: "cached world_asar ''asar'' = JString ''4.0.1''"
    by (simp add: world_defs cached_def)
  have 1: "fst (fetch (request_of ''/asar/latest'' []) world_asar) =
       Redirect ''https://packages.electronjs.org/asar/v4.0.1/index.html'' 302"
    using fetch_hit_redirect [OF path_match_asar_latest g c _ verbatim_asar, of "[]"]
    by (simp add: request_of_def)
  then have 2: "fst (fetch (request_of ''/asar/latest'' []) world_asar) \<noteq>
       Redirect ''https://packages.electronjs.org/asar/v4.0.1/index.index'' 302"
    by simp
  have 3: "fst (fetch (request_of ''/foo'' []) world_put_throws) = Forwarded (request_of ''/foo'' [])"
    by (simp add: foo_put_throws)
  from c 1 2 3 show ?thesis by (intro conjI)
qed


lemma foo_get_throws:
  "fetch (request_of ''/foo'' q) world_get_throws =
     (Forwarded (request_of ''/foo'' q),
      emit (Fetch_request (request_of ''/foo'' q))
        (emit (Console_warn (''Error looking up package version for '' @ ''foo'' @ '':'') [Thrown (Exn ''KV GET failed'')])
          (emit (KV_get_called ''foo'') world_get_throws)))"
proof -
  have g: "KV_get_throws world_get_throws ''foo'' = Some (Exn ''KV GET failed'')"
    by (simp add: world_defs)
  show ?thesis by (rule fetch_get_throws [OF path_match_foo g])
qed

text \<open>
  Claim C3, as amended. An exception of the store is caught, logged, and the request is
  passed through to the origin: when the read throws, the registry is not asked (the
  events are the read, the warning and the forwarded request) and the store is not
  written; when the write throws after the registry gave a version, the request is
  forwarded and no redirect is built.
\<close>

theorem C3_store_exception_passes_through:
  "(path_match (pathname (url request)) = Some (JString name) \<and>
    KV_get_throws w name = Some e
    \<longrightarrow>
      fst (fetch request w) = Forwarded request
      \<and> trace request w =
          [KV_get_called name,
           Console_warn (''Error looking up package version for '' @ name @ '':'') [Thrown e],
           Fetch_request request]
      \<and> KV (snd (fetch request w)) = KV w)
   \<and> (path_match (pathname (url request)) = Some (JString name) \<and>
      KV_get_throws w name = None \<and> \<not> truthy (cached w name) \<and>
      network w (registry_url name) = Inr r \<and> ok r \<and> json r = Inr data \<and>
      get_version data = Inr (JString v) \<and> v \<noteq> [] \<and> KV_put_throws w name = Some e
      \<longrightarrow>
        fst (fetch request w) = Forwarded request
        \<and> trace request w =
            [KV_get_called name,
             Console_info (''No version found for '' @ name @ '' in KV. Querying npm registry...''),
             Fetch_url (registry_url name),
             KV_put_called name (JString v) (Some 600),
             Console_warn (''Error looking up package version for '' @ name @ '':'') [Thrown e],
             Fetch_request request])"
  (is "(?G \<longrightarrow> ?GC) \<and> (?P \<longrightarrow> ?PC)")
proof (rule conjI)
  show "?G \<longrightarrow> ?GC"
  proof (rule impI, elim conjE)
    assume m: "path_match (pathname (url request)) = Some (JString name)"
      and g: "KV_get_throws w name = Some e"
    show ?GC by (simp add: trace_def fetch_get_throws [OF m g])
  qed
  show "?P \<longrightarrow> ?PC"
  proof (rule impI, elim conjE)
    assume m: "path_match (pathname (url request)) = Some (JString name)"
      and g: "KV_get_throws w name = None" and c: "\<not> truthy (cached w name)"
      and r: "network w (registry_url name) = Inr r" "ok r" "json r = Inr data"
        "get_version data = Inr (JString v)" "v \<noteq> []" "KV_put_throws w name = Some e"
    show ?PC by (simp add: trace_def fetch_put_throws [OF m g c r])
  qed
qed

theorem C3_store_exception_passes_through_witness:
  "path_match (pathname (url (request_of ''/foo'' []))) = Some (JString ''foo'')
   \<and> KV_get_throws world_get_throws ''foo'' = Some (Exn ''KV GET failed'')
   \<and> fst (fetch (request_of ''/foo'' []) world_get_throws) = Forwarded (request_of ''/foo'' [])
   \<and> trace (request_of ''/foo'' []) world_get_throws =
       [KV_get_called ''foo'',
        Console_warn ''Error looking up package version for foo:'' [Thrown (Exn ''KV GET failed'')],
        Fetch_request (request_of ''/foo'' [])]
   \<and> KV_put_throws world_put_throws ''foo'' = Some (Exn ''KV PUT failed'')
   \<and> fst (fetch (request_of ''/foo'' []) world_put_throws) = Forwarded (request_of ''/foo'' [])"
proof -
  let ?D = "JsonObject [''version'' \<mapsto> JString ''5.0.0'']"
  let ?R = "\<lparr>ok = True, status = 200, json = Inr ?D\<rparr>"
  let ?e = "Exn ''KV GET failed''"
  let ?e' = "Exn ''KV PUT failed''"
  note m = path_match_foo [of "[]"]
  have g: "KV_get_throws world_get_throws ''foo'' = Some ?e"
    by (simp add: world_defs)
  have p: "KV_put_throws world_put_throws ''foo'' = Some ?e'"
    by (simp add: world_defs)
  have G: "path_match (pathname (url (request_of ''/foo'' []))) = Some (JString ''foo'') \<and>
      KV_get_throws world_get_throws ''foo'' = Some ?e"
    using m g by (intro conjI)
  have P: "path_match (pathname (url (request_of ''/foo'' []))) = Some (JString ''foo'') \<and>
      KV_get_throws world_put_throws ''foo'' = None \<and> \<not> truthy (cached world_put_throws ''foo'') \<and>
      network world_put_throws (registry_url ''foo'') = Inr ?R \<and> ok ?R \<and> json ?R = Inr ?D \<and>
      get_version ?D = Inr (JString ''5.0.0'') \<and> ''5.0.0'' \<noteq> [] \<and>
      KV_put_throws world_put_throws ''foo'' = Some ?e'"
    using m by (simp add: world_defs cached_def)
  note T1 = C3_store_exception_passes_through
    [of "request_of ''/foo'' []" "''foo''" world_get_throws ?e, THEN conjunct1, THEN mp, OF G]
  note T2 = C3_store_exception_passes_through
    [of "request_of ''/foo'' []" "''foo''" world_put_throws ?e' ?R ?D "''5.0.0''",
     THEN conjunct2, THEN mp, OF P]
  from T1 have 1: "fst (fetch (request_of ''/foo'' []) world_get_throws) = Forwarded (request_of ''/foo'' [])"
    by (rule conjunct1)
  from T1 have 2: "trace (request_of ''/foo'' []) world_get_throws =
       [KV_get_called ''foo'',
        Console_warn ''Error looking up package version for foo:'' [Thrown (Exn ''KV GET failed'')],
        Fetch_request (request_of ''/foo'' [])]"
    by simp
  from T2 have 3: "fst (fetch (request_of ''/foo'' []) world_put_throws) = Forwarded (request_of ''/foo'' [])"
    by (rule conjunct1)
  from m g 1 2 p 3 show ?thesis by (intro conjI)
qed

text \<open>
  Claim C3 as stated fails: with a registry that would answer \<^verbatim>\<open>5.0.0\<close> for
  \<^verbatim>\<open>foo\<close> (the last line: without an exception the answer is the redirect), a read that
  throws is not followed by a registry request, and after a read or a write that throws
  the request is forwarded instead of redirected.
\<close>

theorem C3_upstream_not_queried_counterexample:
  "KV_get_throws world_get_throws ''foo'' = Some (Exn ''KV GET failed'')
   \<and> Fetch_url (registry_url ''foo'') \<notin> set (trace (request_of ''/foo'' []) world_get_throws)
   \<and> fst (fetch (request_of ''/foo'' []) world_get_throws) = Forwarded (request_of ''/foo'' [])
   \<and> KV_put_throws world_put_throws ''foo'' = Some (Exn ''KV PUT failed'')
   \<and> fst (fetch (request_of ''/foo'' []) world_put_throws) = Forwarded (request_of ''/foo'' [])
   \<and> fst (fetch (request_of ''/foo'' []) world_foo) =
       Redirect ''https://packages.electronjs.org/foo/v5.0.0/index.html'' 302"
proof -
  have g: "KV_get_throws world_get_throws ''foo'' = Some (Exn ''KV GET failed'')"
    by (simp add: world_defs)
  have p: "KV_put_throws world_put_throws ''foo'' = Some (Exn ''KV PUT failed'')"
    by (simp add: world_defs)
  have 1: "Fetch_url (registry_url ''foo'') \<notin> set (trace (request_of ''/foo'' []) world_get_throws)"
    by (simp add: trace_def foo_get_throws)
  have 2: "fst (fetch (request_of ''/foo'' []) world_get_throws) = Forwarded (request_of ''/foo'' [])"
    by (simp add: foo_get_throws)
  have 3: "fst (fetch (request_of ''/foo'' []) world_put_throws) = Forwarded (request_of ''/foo'' [])"
    by (simp add: foo_put_throws)
  let ?D = "JsonObject [''version'' \<mapsto> JString ''5.0.0'']"
  let ?R = "\<lparr>ok = True, status = 200, json = Inr ?D\<rparr>"
  have f: "KV_get_throws world_foo ''foo'' = None" "\<not> truthy (cached world_foo ''foo'')"
      "network world_foo (registry_url ''foo'') = Inr ?R" "ok ?R" "json ?R = Inr ?D"
      "get_version ?D = Inr (JString ''5.0.0'')" "''5.0.0'' \<noteq> []"
      "KV_put_throws world_foo ''foo'' = None"
    by (simp_all add: world_defs cached_def)
  from fetch_resolved_redirect [OF path_match_foo f verbatim_foo, of "[]"]
  have 4: "fst (fetch (request_of ''/foo'' []) world_foo) =
       Redirect ''https://packages.electronjs.org/foo/v5.0.0/index.html'' 302"
    by (simp add: request_of_def)
  from g 1 2 p 3 4 show ?thesis by (intro conjI)
qed

text \<open>
  Claim C8. When a version was obtained, the location of the redirect is the location
  the same request would get without a query string, followed by the request's query
  string as it is (for \<^verbatim>\<open>/asar/latest?foo=bar\<close> and a cached \<^verbatim>\<open>asar\<close>, a URL that ends
  in \<^verbatim>\<open>?foo=bar\<close>).
\<close>

theorem C8_query_string_is_preserved:
  assumes "path_match (pathname (url request)) = Some (JString name)"
    and "KV_get_throws w name = None" and "v \<noteq> []"
    and "cached w name = JString v \<or>
         (\<not> truthy (cached w name) \<and> network w (registry_url name) = Inr r \<and> ok r \<and>
          json r = Inr data \<and> get_version data = Inr (JString v) \<and>
          KV_put_throws w name = None)"
    and "url_path_verbatim (redirectPath name (JString v))"
  shows "\<exists>loc. fst (fetch (request\<lparr>url := (url request)\<lparr>search := []\<rparr>\<rparr>) w) = Redirect loc 302
             \<and> fst (fetch request w) = Redirect (loc @ search (url request)) 302"
proof -
  let ?bare = "request\<lparr>url := (url request)\<lparr>search := []\<rparr>\<rparr>"
  let ?loc = "''https://packages.electronjs.org'' @ ''/'' @ name @ ''/v'' @ v @ ''/index.html''"
  from assms(1) have m: "path_match (pathname (url ?bare)) = Some (JString name)" by simp
  from fetch_version_obtained [OF m assms(2-5)]
  have 1: "fst (fetch ?bare w) = Redirect ?loc 302" by simp
  from fetch_version_obtained [OF assms]
  have 2: "fst (fetch request w) = Redirect (?loc @ search (url request)) 302" by simp
  from 1 2 show ?thesis by blast
qed

theorem C8_query_string_is_preserved_witness:
  "cached world_asar ''asar'' = JString ''4.0.1''
   \<and> fst (fetch (request_of ''/asar/latest'' ''?foo=bar'') world_asar) =
       Redirect ''https://packages.electronjs.org/asar/v4.0.1/index.html?foo=bar'' 302"
proof -
  have g: "KV_get_throws world_asar ''asar'' = None"
    by (simp add: world_defs)
  have c: "cached world_asar ''asar'' = JString ''4.0.1''"
    by (simp add: world_defs cached_def)
  have v: "''4.0.1'' \<noteq> []" by simp
  from C8_query_string_is_preserved
    [OF path_match_asar_latest g v disjI1 [OF c] verbatim_asar, of "''?foo=bar''"]
  obtain loc where
    1: "fst (fetch ((request_of ''/asar/latest'' ''?foo=bar'')
          \<lparr>url := (url (request_of ''/asar/latest'' ''?foo=bar''))\<lparr>search := []\<rparr>\<rparr>) world_asar) =
        Redirect loc 302"
    and 2: "fst (fetch (request_of ''/asar/latest'' ''?foo=bar'') world_asar) =
        Redirect (loc @ search (url (request_of ''/asar/latest'' ''?foo=bar''))) 302"
    by blast
  have "(request_of ''/asar/latest'' ''?foo=bar'')
          \<lparr>url := (url (request_of ''/asar/latest'' ''?foo=bar''))\<lparr>search := []\<rparr>\<rparr> =
        request_of ''/asar/latest'' []"
    by (simp add: request_of_def)
  with 1 have "fst (fetch (request_of ''/asar/latest'' []) world_asar) = Redirect loc 302" by simp
  moreover from fetch_hit_redirect [OF path_match_asar_latest g c v verbatim_asar, of "[]"]
  have "fst (fetch (request_of ''/asar/latest'' []) world_asar) =
       Redirect ''https://packages.electronjs.org/asar/v4.0.1/index.html'' 302"
    by (simp add: request_of_def)
  ultimately have "loc = ''https://packages.electronjs.org/asar/v4.0.1/index.html''" by simp
  with 2 c show ?thesis by (simp add: request_of_def)
qed

text \<open>
  The second handler, on the input of claim C1: nothing usable in the store, and the
  request is forwarded.
\<close>

lemma fetch_kv_only_miss_passes_through:
  "fst (fetch_kv_only (request_of ''/bar'' []) quiet_world) = Forwarded (request_of ''/bar'' [])"
  by (simp add: fetch_kv_only_def try_body_kv_only_def KV_put_def KV_get_def cached_def
        pass_through_def path_match_bar world_defs Let_def)


lemma try_body_miss:
  assumes "KV_get_throws w name = None" and "\<not> truthy (cached w name)"
  shows "try_body request name w =
     (case query_registry name (cached w name) (emit (KV_get_called name) w) of
        (Inl e, w2) \<Rightarrow> (Inl e, w2)
      | (Inr version, w2) \<Rightarrow> (build_redirect request name version w2, w2))"
  using assms by (simp add: try_body_def KV_get_def Let_def)

lemma world_KV_update_simps [simp]:
  "events (w\<lparr>KV := m\<rparr>) = events w"
  "KV_get_throws (w\<lparr>KV := m\<rparr>) = KV_get_throws w"
  "KV_put_throws (w\<lparr>KV := m\<rparr>) = KV_put_throws w"
  "network (w\<lparr>KV := m\<rparr>) = network w"
  by simp_all

lemma query_registry_events_independent:
  assumes "events w' = events w" and "network w' = network w"
    and "KV_put_throws w' = KV_put_throws w"
  shows "events (snd (query_registry name ver' w')) = events (snd (query_registry name ver w))"
proof (cases rule: query_registry_cases [of w name])
  case (rejected e)
  with assms have "network w' (registry_url name) = Inl e" by simp
  from query_registry_rejected [OF this] query_registry_rejected [OF rejected] assms(1)
  show ?thesis by simp
next
  case (not_ok r)
  with assms have "network w' (registry_url name) = Inr r" "\<not> ok r" by simp_all
  from query_registry_not_ok [OF this] query_registry_not_ok [OF not_ok] assms(1)
  show ?thesis by simp
next
  case (unparsable r e)
  with assms have "network w' (registry_url name) = Inr r" "ok r"
    "json r = Inl e \<or> (\<exists>data. json r = Inr data \<and> get_version data = Inl e)" by simp_all
  from query_registry_unparsable [OF this] query_registry_unparsable [OF unparsable] assms(1)
  show ?thesis by simp
next
  case (no_version r data npmVersion)
  with assms have "network w' (registry_url name) = Inr r" "ok r" "json r = Inr data"
    "get_version data = Inr npmVersion" "\<not> truthy npmVersion" by simp_all
  from query_registry_no_version [OF this] query_registry_no_version [OF no_version] assms(1)
  show ?thesis by simp
next
  case (put_throws r data v e)
  with assms have "network w' (registry_url name) = Inr r" "ok r" "json r = Inr data"
    "get_version data = Inr (JString v)" "v \<noteq> []" "KV_put_throws w' name = Some e" by simp_all
  from query_registry_put_throws [OF this] query_registry_put_throws [OF put_throws] assms(1)
  show ?thesis by simp
next
  case (resolved r data v)
  with assms have "network w' (registry_url name) = Inr r" "ok r" "json r = Inr data"
    "get_version data = Inr (JString v)" "v \<noteq> []" "KV_put_throws w' name = None" by simp_all
  from query_registry_resolved [OF this] query_registry_resolved [OF resolved] assms(1)
  show ?thesis by simp
qed

lemma query_registry_asks:
  "\<exists>rest. events (snd (query_registry name ver w)) =
      events w @ Console_info (''No version found for '' @ name @
                               '' in KV. Querying npm registry...'')
               # Fetch_url (registry_url name) # rest
    \<and> (\<forall>s. Console_info s \<notin> set rest)"
proof (cases rule: query_registry_cases [of w name])
  case (rejected e)
  show ?thesis by (simp add: query_registry_rejected [OF rejected])
next
  case (not_ok r)
  show ?thesis by (simp add: query_registry_not_ok [OF not_ok])
next
  case (unparsable r e)
  show ?thesis by (simp add: query_registry_unparsable [OF unparsable])
next
  case (no_version r data npmVersion)
  show ?thesis by (simp add: query_registry_no_version [OF no_version])
next
  case (put_throws r data v e)
  show ?thesis by (simp add: query_registry_put_throws [OF put_throws])
next
  case (resolved r data v)
  show ?thesis by (simp add: query_registry_resolved [OF resolved])
qed


lemma try_body_miss_events:
  assumes "KV_get_throws w name = None" and "\<not> truthy (cached w name)"
  shows "events (snd (try_body request name w)) =
         events (snd (query_registry name (cached w name) (emit (KV_get_called name) w)))"
proof -
  obtain res w2 where Q: "query_registry name (cached w name) (emit (KV_get_called name) w) = (res, w2)"
    by (cases "query_registry name (cached w name) (emit (KV_get_called name) w)")
  show ?thesis
    by (cases res) (simp_all add: try_body_miss [OF assms] Q)
qed

lemma miss_trace:
  assumes m: "path_match (pathname (url request)) = Some (JString name)"
    and g: "KV_get_throws w name = None" and c: "\<not> truthy (cached w name)"
  shows "\<exists>rest. trace request w =
            KV_get_called name
            # Console_info (''No version found for '' @ name @ '' in KV. Querying npm registry...'')
            # Fetch_url (registry_url name) # rest
          \<and> (\<forall>s. Console_info s \<notin> set rest)"
proof -
  let ?w1 = "emit (KV_get_called name) w"
  obtain res w2 where Q: "query_registry name (cached w name) ?w1 = (res, w2)"
    by (cases "query_registry name (cached w name) ?w1")
  from query_registry_asks [of name "cached w name" ?w1] Q
  obtain rest where ev: "events w2 = events w @ KV_get_called name
      # Console_info (''No version found for '' @ name @ '' in KV. Querying npm registry...'')
      # Fetch_url (registry_url name) # rest"
    and rest: "\<forall>s. Console_info s \<notin> set rest"
    by auto
  show ?thesis
  proof (cases res)
    case (Inl e)
    with ev rest show ?thesis
      by (simp add: trace_def fetch_miss [OF m g c] Q pass_through_def)
  next
    case (Inr version)
    show ?thesis
    proof (cases "build_redirect request name version w2")
      case (Inl e)
      with Inr ev rest show ?thesis
        by (simp add: trace_def fetch_miss [OF m g c] Q pass_through_def)
    next
      case resp: (Inr resp)
      with Inr ev rest show ?thesis
        by (simp add: trace_def fetch_miss [OF m g c] Q)
    qed
  qed
qed

text \<open>
  Claim C10. When the store returns the empty string for the package name, the handler
  goes the way of a missing entry: the \<^verbatim>\<open>try\<close> block produces the events it produces
  when the entry is absent, the registry is asked for the package, the line
  \<^verbatim>\<open>Found version ...\<close> of the hit branch is not logged, and when the registry gives a
  version the answer is the one given for an absent entry.
\<close>

theorem C10_empty_cached_string_is_a_miss:
  assumes "path_match (pathname (url request)) = Some (JString name)"
    and "KV_get_throws w name = None"
    and "cached w name = JString []"
  shows "events (snd (try_body request name w)) =
           events (snd (try_body request name (w\<lparr>KV := (KV w)(name := None)\<rparr>)))
       \<and> Fetch_url (registry_url name) \<in> set (trace request w)
       \<and> (\<forall>s. Console_info (''Found version '' @ s) \<notin> set (trace request w))
       \<and> (network w (registry_url name) = Inr r \<and> ok r \<and> json r = Inr data \<and>
           get_version data = Inr (JString v) \<and> v \<noteq> []
           \<longrightarrow> fst (fetch request w) = fst (fetch request (w\<lparr>KV := (KV w)(name := None)\<rparr>)))"
  (is "?E \<and> ?F \<and> ?N \<and> (?H \<longrightarrow> ?R)")
proof -
  let ?w0 = "w\<lparr>KV := (KV w)(name := None)\<rparr>"
  note m = assms(1) and g = assms(2)
  from assms(3) have c: "\<not> truthy (cached w name)" by simp
  have c0: "\<not> truthy (cached ?w0 name)" by (simp add: cached_def)
  have g0: "KV_get_throws ?w0 name = None" using g by simp
  have E: ?E
    unfolding try_body_miss_events [OF g c] try_body_miss_events [OF g0 c0]
    by (rule query_registry_events_independent [symmetric]) simp_all
  from miss_trace [OF m g c] obtain rest where
    t: "trace request w =
            KV_get_called name
            # Console_info (''No version found for '' @ name @ '' in KV. Querying npm registry...'')
            # Fetch_url (registry_url name) # rest"
    and rest: "\<forall>s. Console_info s \<notin> set rest"
    by blast
  have F: ?F by (simp add: t)
  have N: ?N using rest by (simp add: t)
  have R: "?H \<longrightarrow> ?R"
  proof (rule impI, elim conjE)
    assume r: "network w (registry_url name) = Inr r" "ok r" "json r = Inr data"
      "get_version data = Inr (JString v)" "v \<noteq> []"
    from r have r0: "network ?w0 (registry_url name) = Inr r" by simp
    show ?R
    proof (cases "KV_put_throws w name")
      case None
      then have p0: "KV_put_throws ?w0 name = None" by simp
      show ?thesis
        by (simp add: fetch_resolved [OF m g c r None] fetch_resolved [OF m g0 c0 r0 r(2-5) p0]
              Let_def pass_through_def split: sum.splits)
    next
      case (Some e)
      then have p0: "KV_put_throws ?w0 name = Some e" by simp
      show ?thesis
        by (simp add: fetch_put_throws [OF m g c r Some] fetch_put_throws [OF m g0 c0 r0 r(2-5) p0])
    qed
  qed
  from E F N R show ?thesis by (intro conjI)
qed

theorem C10_empty_cached_string_is_a_miss_witness:
  "cached world_asar_empty ''asar'' = JString []
   \<and> Fetch_url ''https://registry.npmjs.org/@electron/asar/latest''
       \<in> set (trace (request_of ''/asar/latest'' []) world_asar_empty)
   \<and> events (snd (try_body (request_of ''/asar/latest'' []) ''asar'' world_asar_empty)) =
     events (snd (try_body (request_of ''/asar/latest'' []) ''asar'' quiet_world))"
proof -
  have g: "KV_get_throws world_asar_empty ''asar'' = None"
    by (simp add: world_defs)
  have c: "cached world_asar_empty ''asar'' = JString []"
    by (simp add: world_defs cached_def)
  have w: "world_asar_empty\<lparr>KV := (KV world_asar_empty)(''asar'' := None)\<rparr> = quiet_world"
    by (simp add: world_defs)
  note T = C10_empty_cached_string_is_a_miss [OF path_match_asar_latest g c, of "[]"]
  from T have 1: "Fetch_url ''https://registry.npmjs.org/@electron/asar/latest''
       \<in> set (trace (request_of ''/asar/latest'' []) world_asar_empty)"
    by (simp add: registry_url_def)
  from T have 2: "events (snd (try_body (request_of ''/asar/latest'' []) ''asar'' world_asar_empty)) =
     events (snd (try_body (request_of ''/asar/latest'' []) ''asar'' quiet_world))"
    by (simp add: w)
  from c 1 2 show ?thesis by (intro conjI)
qed

text \<open>
  Claim C7 as stated fails: with nothing in the store for \<^verbatim>\<open>foo\<close> and a registry that
  answers with success and \<^verbatim>\<open>{"version": "5.0.0"}\<close>, a write to the store that throws
  is attempted with the 600 seconds, the store holds no entry for \<^verbatim>\<open>foo\<close> afterwards,
  and the version is not used: the request is forwarded.
\<close>

theorem C7_write_throws_counterexample:
  "path_match (pathname (url (request_of ''/foo'' []))) = Some (JString ''foo'')
   \<and> KV_get_throws world_put_throws ''foo'' = None
   \<and> cached world_put_throws ''foo'' = JNull
   \<and> network world_put_throws (registry_url ''foo'') =
       Inr \<lparr>ok = True, status = 200,
            json = Inr (JsonObject [''version'' \<mapsto> JString ''5.0.0''])\<rparr>
   \<and> get_version (JsonObject [''version'' \<mapsto> JString ''5.0.0'']) = Inr (JString ''5.0.0'')
   \<and> KV_put_called ''foo'' (JString ''5.0.0'') (Some 600)
       \<in> set (trace (request_of ''/foo'' []) world_put_throws)
   \<and> KV (snd (fetch (request_of ''/foo'' []) world_put_throws)) ''foo'' = None
   \<and> fst (fetch (request_of ''/foo'' []) world_put_throws) = Forwarded (request_of ''/foo'' [])"
proof -
  note m = path_match_foo [of "[]"]
  have g: "KV_get_throws world_put_throws ''foo'' = None"
    and c: "cached world_put_throws ''foo'' = JNull"
    and n: "network world_put_throws (registry_url ''foo'') =
       Inr \<lparr>ok = True, status = 200,
            json = Inr (JsonObject [''version'' \<mapsto> JString ''5.0.0''])\<rparr>"
    by (simp_all add: world_defs cached_def)
  have v: "get_version (JsonObject [''version'' \<mapsto> JString ''5.0.0'']) = Inr (JString ''5.0.0'')"
    by simp
  have 1: "KV_put_called ''foo'' (JString ''5.0.0'') (Some 600)
       \<in> set (trace (request_of ''/foo'' []) world_put_throws)"
    by (simp add: trace_def foo_put_throws)
  have 2: "KV (snd (fetch (request_of ''/foo'' []) world_put_throws)) ''foo'' = None"
    by (simp add: foo_put_throws) (simp add: world_defs)
  have 3: "fst (fetch (request_of ''/foo'' []) world_put_throws) = Forwarded (request_of ''/foo'' [])"
    by (simp add: foo_put_throws)
  from m g c n v 1 2 3 show ?thesis by (intro conjI)
qed

section \<open>The redirect is not guarded\<close>

text \<open>
  In general: on a matched path with nothing usable in the store, when the registry
  answers without success, or with a body whose \<^verbatim>\<open>version\<close> is missing or empty, the
  handler redirects with what the read of the store returned interpolated as the
  version (\<^verbatim>\<open>null\<close> gives \<^verbatim>\<open>/vnull/\<close>, the empty string gives \<^verbatim>\<open>/v/\<close>).
\<close>

lemma fetch_unresolved_is_redirected:
  assumes m: "path_match (pathname (url request)) = Some (JString name)"
    and g: "KV_get_throws w name = None" and c: "\<not> truthy (cached w name)"
    and r: "network w (registry_url name) = Inr r"
    and bad: "\<not> ok r \<or> (\<exists>data npmVersion. json r = Inr data \<and>
                 get_version data = Inr npmVersion \<and> \<not> truthy npmVersion)"
    and safe: "url_path_verbatim (redirectPath name (cached w name))"
  shows "fst (fetch request w) =
     Redirect (''https://packages.electronjs.org'' @ redirectPath name (cached w name) @
               search (url request)) 302"
proof (cases "ok r")
  case False
  from r have "network (emit (KV_get_called name) w) (registry_url name) = Inr r" by simp
  from query_registry_not_ok [OF this False] safe show ?thesis
    by (simp add: fetch_miss [OF m g c] build_redirect_verbatim)
next
  case True
  with bad obtain data npmVersion where d: "json r = Inr data"
    "get_version data = Inr npmVersion" "\<not> truthy npmVersion"
    by blast
  from r have "network (emit (KV_get_called name) w) (registry_url name) = Inr r" by simp
  from query_registry_no_version [OF this True d] safe show ?thesis
    by (simp add: fetch_miss [OF m g c] build_redirect_verbatim)
qed

text \<open>
  A line terminator after \<^verbatim>\<open>/latest/\<close> is not matched by \<^verbatim>\<open>.\<close>, and \<^verbatim>\<open>$\<close> does not
  match before it.
\<close>

lemma path_match_line_terminator:
  "path_match (''/a/latest/'' @ [CHR 0x0A]) = None"
  by (simp add: path_match_direct match_direct_def tail_ok_def line_terminator_def)

end
